theory Spec2Isabelle
  imports Complex_Main
begin

section \<open>Python values\<close>

text \<open>
  The program is one Python module, \<^verbatim>\<open>main.py\<close>. Its records are the dictionaries that
  \<^verbatim>\<open>r.json()\<close> decodes, so the model works on JSON values. A Python \<^verbatim>\<open>str\<close> is a
  \<open>string\<close>, whose characters stand for the code points U+0000 to U+00FF; a Python
  \<^verbatim>\<open>int\<close> is an \<open>int\<close>; a Python \<^verbatim>\<open>float\<close> is idealised as a \<open>real\<close>, so rounding
  error, overflow, infinities and NaN are outside the model. A \<^verbatim>\<open>dict\<close> is an association
  list in insertion order, with distinct keys, read with \<open>map_of\<close>. The prompt loop at
  the end of the module, the tag search with its Unicode normalisation, and the writing
  of the CSV file are not modelled.
\<close>

datatype json =
    JNull
  | JBool bool
  | JInt int
  | JFloat real
  | JStr string
  | JArr "json list"
  | JObj "(string \<times> json) list"

datatype py_error =
    AttributeError
  | TypeError
  | ValueError
  | ZeroDivisionError
  | HTTPError string
  | RequestException string
  | RuntimeError string


text \<open>Evaluation stops at the first exception: \<open>Inl\<close> is the exception raised.\<close>

definition bindE :: "'e + 'a \<Rightarrow> ('a \<Rightarrow> 'e + 'b) \<Rightarrow> 'e + 'b" where
  "bindE m f = (case m of Inl e \<Rightarrow> Inl e | Inr v \<Rightarrow> f v)"

text \<open>Truth value testing, as \<^verbatim>\<open>if x\<close>, \<^verbatim>\<open>not x\<close> and \<^verbatim>\<open>x or y\<close> use it.\<close>

fun truthy :: "json \<Rightarrow> bool" where
  "truthy JNull = False"
| "truthy (JBool b) = b"
| "truthy (JInt i) = (i \<noteq> 0)"
| "truthy (JFloat r) = (r \<noteq> 0)"
| "truthy (JStr s) = (s \<noteq> [])"
| "truthy (JArr xs) = (xs \<noteq> [])"
| "truthy (JObj kvs) = (kvs \<noteq> [])"

definition py_or :: "json \<Rightarrow> json \<Rightarrow> json" where
  "py_or a b = (if truthy a then a else b)"

text \<open>\<^verbatim>\<open>isinstance(v, dict)\<close> and \<^verbatim>\<open>isinstance(v, list)\<close>.\<close>

fun is_dict :: "json \<Rightarrow> bool" where
  "is_dict (JObj kvs) = True"
| "is_dict _ = False"

fun is_list :: "json \<Rightarrow> bool" where
  "is_list (JArr xs) = True"
| "is_list _ = False"

text \<open>
  \<^verbatim>\<open>d.get(key, default)\<close>. Only a dictionary has the method: on any other value the call
  raises \<^verbatim>\<open>AttributeError\<close>.
\<close>

fun dict_get :: "json \<Rightarrow> string \<Rightarrow> json \<Rightarrow> py_error + json" where
  "dict_get (JObj kvs) key dflt = Inr (case map_of kvs key of Some v \<Rightarrow> v | None \<Rightarrow> dflt)"
| "dict_get _ key dflt = Inl AttributeError"

text \<open>
  \<^verbatim>\<open>isinstance(v, (int, float))\<close>. In Python \<^verbatim>\<open>bool\<close> is a subclass of \<^verbatim>\<open>int\<close>, with
  \<^verbatim>\<open>True == 1\<close> and \<^verbatim>\<open>False == 0\<close>, so a boolean passes the test.
\<close>

fun is_number :: "json \<Rightarrow> bool" where
  "is_number (JInt i) = True"
| "is_number (JFloat r) = True"
| "is_number (JBool b) = True"
| "is_number _ = False"

fun num_val :: "json \<Rightarrow> real" where
  "num_val (JInt i) = of_int i"
| "num_val (JFloat r) = r"
| "num_val (JBool b) = (if b then 1 else 0)"
| "num_val _ = 0"

text \<open>
  Two built-ins are parameters of the model: what \<^verbatim>\<open>float\<close> makes of a string (\<open>None\<close>
  where it raises \<^verbatim>\<open>ValueError\<close>), and what \<^verbatim>\<open>str\<close> makes of a value that is not a
  string.
\<close>

record builtins =
  float_of_str :: "string \<Rightarrow> real option"
  str_of :: "json \<Rightarrow> string"

text \<open>\<^verbatim>\<open>float(v)\<close>\<close>

fun py_float :: "builtins \<Rightarrow> json \<Rightarrow> py_error + real" where
  "py_float B (JInt i) = Inr (of_int i)"
| "py_float B (JFloat r) = Inr r"
| "py_float B (JBool b) = Inr (if b then 1 else 0)"
| "py_float B (JStr s) = (case float_of_str B s of Some r \<Rightarrow> Inr r | None \<Rightarrow> Inl ValueError)"
| "py_float B _ = Inl TypeError"

text \<open>\<^verbatim>\<open>str(v)\<close>\<close>

fun py_str :: "builtins \<Rightarrow> json \<Rightarrow> string" where
  "py_str B (JStr s) = s"
| "py_str B v = str_of B v"

text \<open>\<^verbatim>\<open>s.lower()\<close>, on the code points U+0000 to U+00FF.\<close>

definition py_lower_char :: "char \<Rightarrow> char" where
  "py_lower_char c =
     (let n = (of_char c :: nat)
      in if (65 \<le> n \<and> n \<le> 90) \<or> (192 \<le> n \<and> n \<le> 222 \<and> n \<noteq> 215) then char_of (n + 32) else c)"

definition py_lower :: "string \<Rightarrow> string" where
  "py_lower s = map py_lower_char s"

text \<open>\<^verbatim>\<open>v.lower()\<close> on a value: only a string has the method.\<close>

fun lower_of :: "json \<Rightarrow> py_error + string" where
  "lower_of (JStr s) = Inr (py_lower s)"
| "lower_of _ = Inl AttributeError"

text \<open>\<^verbatim>\<open>a / b\<close> on numbers.\<close>

definition py_truediv :: "real \<Rightarrow> real \<Rightarrow> py_error + real" where
  "py_truediv a b = (if b = 0 then Inl ZeroDivisionError else Inr (a / b))"

text \<open>\<^verbatim>\<open>int(x)\<close> on a float truncates towards zero.\<close>

definition py_int :: "real \<Rightarrow> int" where
  "py_int x = (if 0 \<le> x then \<lfloor>x\<rfloor> else \<lceil>x\<rceil>)"

text \<open>
  \<^verbatim>\<open>round(x, ndigits)\<close> rounds to the nearest multiple of \<open>10 ^ -ndigits\<close>, a tie going to
  the even neighbour.
\<close>

definition round_half_even :: "real \<Rightarrow> int" where
  "round_half_even y =
     (let f = \<lfloor>y\<rfloor>; d = y - of_int f
      in if d < 1 / 2 then f else if 1 / 2 < d then f + 1 else if even f then f else f + 1)"

definition py_round :: "real \<Rightarrow> nat \<Rightarrow> real" where
  "py_round x ndigits = of_int (round_half_even (x * 10 ^ ndigits)) / 10 ^ ndigits"

text \<open>\<^verbatim>\<open>min(xs)\<close> and \<^verbatim>\<open>max(xs)\<close> on a list of numbers; on the empty list they raise.\<close>

fun py_min :: "real list \<Rightarrow> py_error + real" where
  "py_min [] = Inl ValueError"
| "py_min (x # xs) = Inr (fold (\<lambda>v m. if v < m then v else m) xs x)"

fun py_max :: "real list \<Rightarrow> py_error + real" where
  "py_max [] = Inl ValueError"
| "py_max (x # xs) = Inr (fold (\<lambda>v m. if m < v then v else m) xs x)"

definition is_digit :: "char \<Rightarrow> bool" where
  "is_digit c = (c \<in> set ''0123456789'')"

text \<open>
  A reading of decimal literals (a sign, digits, a point, digits) for the examples. It
  agrees with \<^verbatim>\<open>float\<close> on the strings it accepts.
\<close>

definition digits_val :: "string \<Rightarrow> nat" where
  "digits_val ds = foldl (\<lambda>a c. 10 * a + (of_char c - 48)) 0 ds"

definition unsigned_decimal :: "string \<Rightarrow> real option" where
  "unsigned_decimal s =
     (let ip = takeWhile is_digit s; rest = dropWhile is_digit s;
          fp = (case rest of [] \<Rightarrow> [] | c # cs \<Rightarrow> cs)
      in if (rest = [] \<or> hd rest = CHR ''.'') \<and> list_all is_digit fp \<and> (ip \<noteq> [] \<or> fp \<noteq> [])
         then Some (of_nat (digits_val ip) + of_nat (digits_val fp) / 10 ^ length fp)
         else None)"

definition float_of_decimal :: "string \<Rightarrow> real option" where
  "float_of_decimal s =
     (case s of
        [] \<Rightarrow> None
      | c # cs \<Rightarrow>
          if c = CHR ''-'' then map_option uminus (unsigned_decimal cs)
          else if c = CHR ''+'' then unsigned_decimal cs
          else unsigned_decimal s)"

definition example_builtins :: builtins where
  "example_builtins = \<lparr>float_of_str = float_of_decimal, str_of = (\<lambda>v. ''?'')\<rparr>"

section \<open>Base slug\<close>

text \<open>\<^verbatim>\<open>slug.split("-")\<close>: the empty string splits into one empty token.\<close>

fun split_on :: "char \<Rightarrow> string \<Rightarrow> string list" where
  "split_on sep [] = [[]]"
| "split_on sep (c # cs) =
     (if c = sep then [] # split_on sep cs
      else (case split_on sep cs of
              [] \<Rightarrow> [[c]]
            | t # ts \<Rightarrow> (c # t) # ts))"

text \<open>\<^verbatim>\<open>"-".join(parts)\<close>.\<close>

fun join_with :: "char \<Rightarrow> string list \<Rightarrow> string" where
  "join_with sep [] = []"
| "join_with sep [t] = t"
| "join_with sep (t # u # ts) = t @ sep # join_with sep (u # ts)"

text \<open>
  The four patterns are used with \<^verbatim>\<open>re.match\<close>. \<^verbatim>\<open>\d\<close> is a decimal digit, which in
  the range U+0000 to U+00FF is one of \<^verbatim>\<open>0\<close> to \<^verbatim>\<open>9\<close>. Without \<^verbatim>\<open>re.MULTILINE\<close>,
  \<^verbatim>\<open>$\<close> matches at the end of the string and also just before a newline that ends the
  string.
\<close>

definition re_dollar :: "string \<Rightarrow> bool" where
  "re_dollar rest = (rest = [] \<or> rest = [CHR 0x0A])"

text \<open>\<^verbatim>\<open>ONE_TOKEN_DATE_RE = ^\d{4}-\d{2}-\d{2}$\<close>\<close>

fun ONE_TOKEN_DATE_RE :: "string \<Rightarrow> bool" where
  "ONE_TOKEN_DATE_RE (y1 # y2 # y3 # y4 # h1 # m1 # m2 # h2 # d1 # d2 # rest) =
     (is_digit y1 \<and> is_digit y2 \<and> is_digit y3 \<and> is_digit y4 \<and> h1 = CHR ''-'' \<and>
      is_digit m1 \<and> is_digit m2 \<and> h2 = CHR ''-'' \<and> is_digit d1 \<and> is_digit d2 \<and>
      re_dollar rest)"
| "ONE_TOKEN_DATE_RE _ = False"

text \<open>\<^verbatim>\<open>YEAR_RE = ^\d{4}$\<close>\<close>

fun YEAR_RE :: "string \<Rightarrow> bool" where
  "YEAR_RE (y1 # y2 # y3 # y4 # rest) =
     (is_digit y1 \<and> is_digit y2 \<and> is_digit y3 \<and> is_digit y4 \<and> re_dollar rest)"
| "YEAR_RE _ = False"

text \<open>\<^verbatim>\<open>MONTH_RE = ^(0[1-9]|1[0-2])$\<close>\<close>

fun MONTH_RE :: "string \<Rightarrow> bool" where
  "MONTH_RE (a # b # rest) =
     (((a = CHR ''0'' \<and> b \<in> set ''123456789'') \<or> (a = CHR ''1'' \<and> b \<in> set ''012'')) \<and>
      re_dollar rest)"
| "MONTH_RE _ = False"

text \<open>\<^verbatim>\<open>DAY_RE = ^(0[1-9]|[12]\d|3[01])$\<close>\<close>

fun DAY_RE :: "string \<Rightarrow> bool" where
  "DAY_RE (a # b # rest) =
     (((a = CHR ''0'' \<and> b \<in> set ''123456789'') \<or> (a \<in> set ''12'' \<and> is_digit b) \<or>
       (a = CHR ''3'' \<and> b \<in> set ''01'')) \<and>
      re_dollar rest)"
| "DAY_RE _ = False"

text \<open>The test of line 110 at index \<open>i\<close>: three tokens that read year, month, day.\<close>

definition three_token_date :: "string list \<Rightarrow> nat \<Rightarrow> bool" where
  "three_token_date parts i =
     (i + 2 < length parts \<and> YEAR_RE (parts ! i) \<and> MONTH_RE (parts ! (i + 1)) \<and>
      DAY_RE (parts ! (i + 2)))"

text \<open>One round of the loop of \<^verbatim>\<open>_find_last_date_span\<close>, at index \<open>i\<close>.\<close>

definition span_step :: "string list \<Rightarrow> nat \<Rightarrow> (nat \<times> nat) option \<Rightarrow> (nat \<times> nat) option" where
  "span_step parts i last_span =
     (let last_span1 = (if ONE_TOKEN_DATE_RE (parts ! i) then Some (i, i) else last_span)
      in if three_token_date parts i then Some (i, i + 2) else last_span1)"

definition find_last_date_span :: "string list \<Rightarrow> (nat \<times> nat) option" where
  "find_last_date_span parts = fold (span_step parts) [0..<length parts] None"

definition base_slug :: "string \<Rightarrow> string" where
  "base_slug slug =
     (if slug = [] then []
      else (let parts = split_on (CHR ''-'') slug
            in case find_last_date_span parts of
                 Some (_, e) \<Rightarrow> join_with (CHR ''-'') (take (e + 1) parts)
               | None \<Rightarrow> slug))"

text \<open>
  Appending suffix tokens to a slug, each behind a hyphen:
  \<open>append_tokens ''a-2025-06-01'' [''yes'', ''8pm''] = ''a-2025-06-01-yes-8pm''\<close>.
\<close>

definition append_tokens :: "string \<Rightarrow> string list \<Rightarrow> string" where
  "append_tokens slug suffix = slug @ concat (map ((#) (CHR ''-'')) suffix)"

subsection \<open>The resolver as the specification words it\<close>

text \<open>
  The specification's resolver, for comparison with \<open>base_slug\<close>: a year token is four
  digits, a month token is one of \<^verbatim>\<open>01\<close> to \<^verbatim>\<open>12\<close>, a day token one of \<^verbatim>\<open>01\<close> to
  \<^verbatim>\<open>31\<close>, a compact token reads \<^verbatim>\<open>YYYY-MM-DD\<close> exactly; the key is cut after the last
  match, and a slug without a match is its own key.
\<close>

definition spec_year :: "string \<Rightarrow> bool" where
  "spec_year t = (length t = 4 \<and> list_all is_digit t)"

definition spec_month :: "string \<Rightarrow> bool" where
  "spec_month t = (t \<in> set [''01'', ''02'', ''03'', ''04'', ''05'', ''06'', ''07'', ''08'', ''09'',
                             ''10'', ''11'', ''12''])"

definition spec_day :: "string \<Rightarrow> bool" where
  "spec_day t = (t \<in> set [''01'', ''02'', ''03'', ''04'', ''05'', ''06'', ''07'', ''08'', ''09'',
                           ''10'', ''11'', ''12'', ''13'', ''14'', ''15'', ''16'', ''17'', ''18'', ''19'',
                           ''20'', ''21'', ''22'', ''23'', ''24'', ''25'', ''26'', ''27'', ''28'', ''29'',
                           ''30'', ''31''])"

definition spec_compact_date :: "string \<Rightarrow> bool" where
  "spec_compact_date t =
     (length t = 10 \<and> list_all is_digit (take 4 t) \<and> t ! 4 = CHR ''-'' \<and>
      list_all is_digit (take 2 (drop 5 t)) \<and> t ! 7 = CHR ''-'' \<and> list_all is_digit (drop 8 t))"

text \<open>The end index of the match that starts at token \<open>i\<close>, if there is one.\<close>

definition spec_match_at :: "string list \<Rightarrow> nat \<Rightarrow> nat option" where
  "spec_match_at parts i =
     (if i + 2 < length parts \<and> spec_year (parts ! i) \<and> spec_month (parts ! (i + 1)) \<and>
         spec_day (parts ! (i + 2))
      then Some (i + 2)
      else if spec_compact_date (parts ! i) then Some i
      else None)"

definition spec_base_key :: "string \<Rightarrow> string" where
  "spec_base_key slug =
     (let parts = split_on (CHR ''-'') slug
      in case List.map_filter (spec_match_at parts) (rev [0..<length parts]) of
           [] \<Rightarrow> slug
         | e # _ \<Rightarrow> join_with (CHR ''-'') (take (e + 1) parts))"

section \<open>Trade metrics\<close>

text \<open>The dictionary \<^verbatim>\<open>compute_metrics\<close> returns; \<open>traders\<close> is its key \<^verbatim>\<open>_traders\<close>.\<close>

record metrics =
  traders_count :: nat
  total_trades :: nat
  total_volume_usd :: real
  avg_trade_size_usd :: real
  avg_volume_per_trader :: real
  avg_trades_per_day :: real
  min_trade_size_usd :: real
  max_trade_size_usd :: real
  active_days :: int
  traders :: "string set"

text \<open>The variables of the loop over the trades.\<close>

record trade_acc =
  vals :: "real list"
  seen :: "string set"
  first_ts :: "json option"
  last_ts :: "json option"

definition trade_acc_init :: trade_acc where
  "trade_acc_init = \<lparr>vals = [], seen = {}, first_ts = None, last_ts = None\<rparr>"

text \<open>
  The timestamp of one trade, lines 176 to 179: a value that is not a number leaves both
  bounds as they are.
\<close>

definition note_timestamp :: "json \<Rightarrow> trade_acc \<Rightarrow> trade_acc" where
  "note_timestamp ts a =
     (if is_number ts
      then (let a1 = (case first_ts a of
                        None \<Rightarrow> a\<lparr>first_ts := Some ts\<rparr>
                      | Some f \<Rightarrow> if num_val ts < num_val f then a\<lparr>first_ts := Some ts\<rparr> else a)
            in case last_ts a1 of
                 None \<Rightarrow> a1\<lparr>last_ts := Some ts\<rparr>
               | Some l \<Rightarrow> if num_val l < num_val ts then a1\<lparr>last_ts := Some ts\<rparr> else a1)
      else a)"

text \<open>One round of the loop, lines 170 to 179, in the order the source evaluates.\<close>

definition trade_step :: "builtins \<Rightarrow> trade_acc \<Rightarrow> json \<Rightarrow> py_error + trade_acc" where
  "trade_step B a tr =
     bindE (dict_get tr ''size'' (JInt 0)) (\<lambda>sz.
     bindE (py_float B (py_or sz (JInt 0))) (\<lambda>size.
     bindE (dict_get tr ''price'' (JInt 0)) (\<lambda>pr.
     bindE (py_float B (py_or pr (JInt 0))) (\<lambda>price.
     bindE (dict_get tr ''proxyWallet'' JNull) (\<lambda>w.
     bindE (lower_of (py_or w (JStr []))) (\<lambda>addr.
     bindE (dict_get tr ''timestamp'' JNull) (\<lambda>ts.
       Inr (note_timestamp ts
              (a\<lparr>vals := vals a @ [\<bar>size * price\<bar>],
                 seen := (if addr \<noteq> [] then insert addr (seen a) else seen a)\<rparr>)))))))))"

fun trades_loop :: "builtins \<Rightarrow> trade_acc \<Rightarrow> json list \<Rightarrow> py_error + trade_acc" where
  "trades_loop B a [] = Inr a"
| "trades_loop B a (tr # trs) =
     (case trade_step B a tr of
        Inl e \<Rightarrow> Inl e
      | Inr a' \<Rightarrow> trades_loop B a' trs)"

text \<open>
  Line 187. \<^verbatim>\<open>first_ts and last_ts\<close> is a truth test of both variables: it fails where
  one of them is \<^verbatim>\<open>None\<close>, and also where one of them is zero.
\<close>

definition active_of :: "json option \<Rightarrow> json option \<Rightarrow> int" where
  "active_of f l =
     (case f of
        None \<Rightarrow> 0
      | Some fv \<Rightarrow>
          (case l of
             None \<Rightarrow> 0
           | Some lv \<Rightarrow>
               if truthy fv \<and> truthy lv then py_int ((num_val lv - num_val fv) / 86400) + 1
               else 0))"

text \<open>Lines 180 to 192, on the variables the loop leaves.\<close>

definition summarise :: "trade_acc \<Rightarrow> py_error + metrics" where
  "summarise a =
     (let total = sum_list (vals a); n = length (vals a); tcnt = card (seen a)
      in bindE (if vals a \<noteq> [] then py_min (vals a) else Inr 0) (\<lambda>minv.
         bindE (if vals a \<noteq> [] then py_max (vals a) else Inr 0) (\<lambda>maxv.
         bindE (if n \<noteq> 0 then py_truediv total (of_nat n) else Inr 0) (\<lambda>avgsize.
         bindE (if tcnt \<noteq> 0 then py_truediv total (of_nat tcnt) else Inr 0) (\<lambda>avgvoltr.
         let active = active_of (first_ts a) (last_ts a)
         in bindE (if active \<noteq> 0 then py_truediv (of_nat n) (of_int active) else Inr 0) (\<lambda>avgday.
            Inr \<lparr>traders_count = tcnt, total_trades = n,
                 total_volume_usd = py_round total 6,
                 avg_trade_size_usd = py_round avgsize 6,
                 avg_volume_per_trader = py_round avgvoltr 6,
                 avg_trades_per_day = py_round avgday 6,
                 min_trade_size_usd = py_round minv 6,
                 max_trade_size_usd = py_round maxv 6,
                 active_days = active, traders = seen a\<rparr>))))))"

definition zero_metrics :: metrics where
  "zero_metrics =
     \<lparr>traders_count = 0, total_trades = 0, total_volume_usd = 0, avg_trade_size_usd = 0,
      avg_volume_per_trader = 0, avg_trades_per_day = 0, min_trade_size_usd = 0,
      max_trade_size_usd = 0, active_days = 0, traders = {}\<rparr>"

definition compute_metrics :: "builtins \<Rightarrow> json list \<Rightarrow> py_error + metrics" where
  "compute_metrics B trades =
     (if trades = [] then Inr zero_metrics
      else bindE (trades_loop B trade_acc_init trades) summarise)"




text \<open>What the loop keeps true of its variables.\<close>

definition acc_ok :: "trade_acc \<Rightarrow> bool" where
  "acc_ok a =
     (list_all (\<lambda>v. 0 \<le> v) (vals a) \<and> finite (seen a) \<and> card (seen a) \<le> length (vals a) \<and>
      (case first_ts a of
         None \<Rightarrow> last_ts a = None
       | Some f \<Rightarrow> (case last_ts a of None \<Rightarrow> False | Some l \<Rightarrow> num_val f \<le> num_val l)))"

text \<open>The trade of the specification's example: size 10, price 0.5, and a timestamp.\<close>

definition trade_10_half :: "json \<Rightarrow> json" where
  "trade_10_half ts = JObj [(''size'', JInt 10), (''price'', JFloat (1 / 2)), (''timestamp'', ts)]"

text \<open>The numeric timestamps of a trade list, in order.\<close>

definition trade_timestamps :: "json list \<Rightarrow> real list" where
  "trade_timestamps trs =
     concat (map (\<lambda>tr. case dict_get tr ''timestamp'' JNull of
                          Inr ts \<Rightarrow> if is_number ts then [num_val ts] else []
                        | Inl e \<Rightarrow> []) trs)"

text \<open>What the loop keeps true of \<^verbatim>\<open>first_ts\<close> and \<^verbatim>\<open>last_ts\<close>, given the timestamps seen.\<close>

definition bounds_ok :: "trade_acc \<Rightarrow> real list \<Rightarrow> bool" where
  "bounds_ok a tss =
     (if tss = [] then first_ts a = None \<and> last_ts a = None
      else (\<exists>f l. first_ts a = Some f \<and> last_ts a = Some l \<and> is_number f \<and> is_number l \<and>
              num_val f = Min (set tss) \<and> num_val l = Max (set tss)))"

section \<open>The fetcher\<close>

definition GAMMA_BASE :: string where "GAMMA_BASE = ''https://gamma-api.polymarket.com''"
definition DATA_BASE :: string where "DATA_BASE = ''https://data-api.polymarket.com''"
definition POLY_BASE :: string where "POLY_BASE = ''https://polymarket.com''"
definition URL_MARKETS :: string where "URL_MARKETS = GAMMA_BASE @ ''/markets''"
definition URL_TRADES :: string where "URL_TRADES = DATA_BASE @ ''/trades''"
definition GAMMA_LIMIT :: int where "GAMMA_LIMIT = 250"
definition DATA_LIMIT :: int where "DATA_LIMIT = 250"
definition MAX_RETRIES :: nat where "MAX_RETRIES = 5"
definition BACKOFF :: real where "BACKOFF = 18 / 10"

text \<open>
  What \<^verbatim>\<open>requests.get\<close> does is given from outside. A request either raises (a timeout, a
  connection error) with a message, or brings a response: its status code, its text,
  what \<^verbatim>\<open>r.json()\<close> makes of it (\<open>Inl\<close> the message of the decoding error), and the
  message \<^verbatim>\<open>r.raise_for_status()\<close> would raise with. The network answers the \<open>k\<close>-th
  request of a run, knowing the request.
\<close>

datatype http_result =
    Failed string
  | Response int string "string + json" string

type_synonym request = "string \<times> (string \<times> json) list"
type_synonym network = "nat \<Rightarrow> request \<Rightarrow> http_result"

text \<open>The effects of a run: how many requests went out, and the sleeps in order.\<close>

record net_state =
  requests :: nat
  slept :: "real list"

definition net_start :: net_state where
  "net_start = \<lparr>requests = 0, slept = []\<rparr>"

text \<open>\<^verbatim>\<open>str(n)\<close> for integers.\<close>

fun show_nat :: "nat \<Rightarrow> string" where
  "show_nat n =
     (if n < 10 then [char_of (48 + n)] else show_nat (n div 10) @ [char_of (48 + n mod 10)])"

declare show_nat.simps [simp del]

definition show_int :: "int \<Rightarrow> string" where
  "show_int i = (if i < 0 then CHR ''-'' # show_nat (nat (- i)) else show_nat (nat i))"

text \<open>
  \<^verbatim>\<open>str(e)\<close> for the exceptions that carry a message, and \<^verbatim>\<open>str(last_error)\<close>, which
  is \<^verbatim>\<open>None\<close> as long as no attempt has raised.
\<close>

fun str_error :: "py_error \<Rightarrow> string" where
  "str_error (HTTPError m) = m"
| "str_error (RequestException m) = m"
| "str_error (RuntimeError m) = m"
| "str_error _ = []"

fun str_last_error :: "py_error option \<Rightarrow> string" where
  "str_last_error None = ''None''"
| "str_last_error (Some e) = str_error e"

text \<open>
  The body of the \<^verbatim>\<open>try\<close>, lines 37 to 42. It returns the decoded value, or raises, or
  runs to its end: \<^verbatim>\<open>raise_for_status\<close> raises for the statuses 400 to 599 and for no
  other.
\<close>

datatype attempt = Returned json | Raised py_error | Passed

fun try_once :: "http_result \<Rightarrow> attempt" where
  "try_once (Failed m) = Raised (RequestException m)"
| "try_once (Response status body decoded line) =
     (if 200 \<le> status \<and> status < 300
      then (case decoded of Inr v \<Rightarrow> Returned v | Inl m \<Rightarrow> Raised (RequestException m))
      else if status \<in> set [408, 429, 500, 502, 503, 504]
      then Raised (RuntimeError (''HTTP '' @ show_int status @ '': '' @ take 240 body))
      else if 400 \<le> status \<and> status < 600 then Raised (HTTPError line)
      else Passed)"

text \<open>
  The loop of \<^verbatim>\<open>_get_json\<close> over the attempts that are left, and the \<^verbatim>\<open>raise\<close> behind
  it.
\<close>

fun get_json_from ::
  "network \<Rightarrow> request \<Rightarrow> nat list \<Rightarrow> py_error option \<Rightarrow> net_state \<Rightarrow> (py_error + json) \<times> net_state"
where
  "get_json_from net req [] last_error s =
     (Inl (RuntimeError (''GET failed after '' @ show_nat MAX_RETRIES @ '' attempts: '' @
                         str_last_error last_error)), s)"
| "get_json_from net req (attempt # rest) last_error s =
     (let s1 = s\<lparr>requests := Suc (requests s)\<rparr>
      in case try_once (net (requests s) req) of
           Returned v \<Rightarrow> (Inr v, s1)
         | Raised e \<Rightarrow>
             get_json_from net req rest (Some e)
               (s1\<lparr>slept := slept s1 @ [BACKOFF ^ (attempt - 1)]\<rparr>)
         | Passed \<Rightarrow> get_json_from net req rest last_error s1)"

text \<open>The last error observed in a run of attempts, \<open>last_error\<close> before it.\<close>

fun last_observed :: "py_error option \<Rightarrow> attempt list \<Rightarrow> py_error option" where
  "last_observed last_error [] = last_error"
| "last_observed last_error (Raised e # rest) = last_observed (Some e) rest"
| "last_observed last_error (_ # rest) = last_observed last_error rest"

definition get_json :: "network \<Rightarrow> request \<Rightarrow> net_state \<Rightarrow> (py_error + json) \<times> net_state" where
  "get_json net req s = get_json_from net req [1..<Suc MAX_RETRIES] None s"

section \<open>Listings\<close>

text \<open>\<^verbatim>\<open>for t in v\<close>: a list gives its elements, a dictionary its keys, a string its
  characters; nothing else can be iterated.\<close>

fun py_iter :: "json \<Rightarrow> py_error + json list" where
  "py_iter (JArr xs) = Inr xs"
| "py_iter (JObj kvs) = Inr (map (\<lambda>kv. JStr (fst kv)) kvs)"
| "py_iter (JStr s) = Inr (map (\<lambda>c. JStr [c]) s)"
| "py_iter _ = Inl TypeError"

text \<open>Lines 55 and 56, and again 84 and 85: the page of a tag or market listing.\<close>

definition listing_page :: "json \<Rightarrow> py_error + json" where
  "listing_page data =
     (if \<not> is_list data
      then (if is_dict data then dict_get data ''data'' (JArr []) else Inr (JArr []))
      else Inr data)"

text \<open>
  \<^verbatim>\<open>fetch_markets_by_tag\<close>. The loop runs as long as pages are full; \<open>None\<close> says that
  the rounds given did not suffice.
\<close>

fun fetch_markets_loop ::
  "nat \<Rightarrow> network \<Rightarrow> json \<Rightarrow> json \<Rightarrow> json list \<Rightarrow> int \<Rightarrow> net_state \<Rightarrow>
   (py_error + json list) option \<times> net_state"
where
  "fetch_markets_loop 0 net tag_id closed_flag out offset s = (None, s)"
| "fetch_markets_loop (Suc fuel) net tag_id closed_flag out offset s =
     (let params = [(''tag_id'', tag_id), (''related_tags'', JStr ''true''),
                    (''closed'', closed_flag), (''limit'', JInt GAMMA_LIMIT),
                    (''offset'', JInt offset)]
      in case get_json net (URL_MARKETS, params) s of
           (Inl e, s1) \<Rightarrow> (Some (Inl e), s1)
         | (Inr resp, s1) \<Rightarrow>
             (case bindE (listing_page resp) py_iter of
                Inl e \<Rightarrow> (Some (Inl e), s1)
              | Inr page \<Rightarrow>
                  if int (length page) < GAMMA_LIMIT then (Some (Inr (out @ page)), s1)
                  else fetch_markets_loop fuel net tag_id closed_flag (out @ page)
                         (offset + GAMMA_LIMIT) s1))"

definition fetch_markets_by_tag ::
  "nat \<Rightarrow> network \<Rightarrow> json \<Rightarrow> json \<Rightarrow> net_state \<Rightarrow> (py_error + json list) option \<times> net_state"
where
  "fetch_markets_by_tag fuel net tag_id closed_flag s =
     fetch_markets_loop fuel net tag_id closed_flag [] 0 s"

section \<open>Trades of one market\<close>

text \<open>\<^verbatim>\<open>sub in s\<close> on strings.\<close>

definition py_in :: "string \<Rightarrow> string \<Rightarrow> bool" where
  "py_in sub s = list_ex (\<lambda>i. take (length sub) (drop i s) = sub) [0..<Suc (length s)]"

text \<open>The test of line 153; \<open>start\<close> is \<^verbatim>\<open>START_TS\<close>, \<open>None\<close> for the full history.\<close>

definition window_keep :: "int option \<Rightarrow> json \<Rightarrow> bool" where
  "window_keep start ts =
     (case start of None \<Rightarrow> True | Some b \<Rightarrow> is_number ts \<and> of_int b \<le> num_val ts)"

text \<open>The loop of lines 151 to 154 over one page.\<close>

fun page_loop :: "int option \<Rightarrow> json list \<Rightarrow> json list \<Rightarrow> py_error + json list" where
  "page_loop start trades [] = Inr trades"
| "page_loop start trades (t # rest) =
     (case dict_get t ''timestamp'' JNull of
        Inl e \<Rightarrow> Inl e
      | Inr ts \<Rightarrow> page_loop start (if window_keep start ts then trades @ [t] else trades) rest)"

text \<open>
  The variables \<^verbatim>\<open>trades\<close>, \<^verbatim>\<open>next_cursor\<close>, \<^verbatim>\<open>limit\<close> and \<^verbatim>\<open>retries_left\<close> of
  \<^verbatim>\<open>fetch_trades_for_market\<close>.
\<close>

record trades_state =
  cur_trades :: "json list"
  cur_cursor :: json
  cur_limit :: int
  cur_retries_left :: int

text \<open>
  One round of the loop of \<^verbatim>\<open>fetch_trades_for_market\<close>, lines 135 to 157: it ends the
  loop with a result (\<^verbatim>\<open>break\<close>, or an exception that leaves the function), or goes
  round again with new variables (\<^verbatim>\<open>continue\<close>, or the end of the body).
  \<^verbatim>\<open>_get_json\<close> raises nothing but \<^verbatim>\<open>RuntimeError\<close>, which the handler of line 140
  catches. The \<^verbatim>\<open>print\<close> of line 145 is left out.
\<close>

datatype round = Done "py_error + json list" | Again trades_state

definition trades_round ::
  "network \<Rightarrow> int option \<Rightarrow> json \<Rightarrow> trades_state \<Rightarrow> net_state \<Rightarrow> round \<times> net_state"
where
  "trades_round net start condition_id st s =
     (let params = [(''market'', condition_id), (''takerOnly'', JStr ''false''),
                    (''limit'', JInt (cur_limit st))] @
                   (if truthy (cur_cursor st) then [(''cursor'', cur_cursor st)] else [])
      in case get_json net (URL_TRADES, params) s of
           (Inl (RuntimeError m), s1) \<Rightarrow>
             if (py_in ''timeout'' (py_lower m) \<or> py_in ''408'' (py_lower m)) \<and>
                0 < cur_retries_left st \<and> 100 < cur_limit st
             then (Again (st\<lparr>cur_retries_left := cur_retries_left st - 1,
                             cur_limit := max 100 (cur_limit st div 2)\<rparr>), s1)
             else (Done (Inr (cur_trades st)), s1)
         | (Inl e, s1) \<Rightarrow> (Done (Inl e), s1)
         | (Inr resp, s1) \<Rightarrow>
             (case (if is_dict resp then dict_get resp ''data'' JNull else Inr resp) of
                Inl e \<Rightarrow> (Done (Inl e), s1)
              | Inr data \<Rightarrow>
                  if \<not> truthy data then (Done (Inr (cur_trades st)), s1)
                  else (case bindE (py_iter data) (page_loop start (cur_trades st)) of
                          Inl e \<Rightarrow> (Done (Inl e), s1)
                        | Inr trades' \<Rightarrow>
                            (case (if is_dict resp then dict_get resp ''next'' JNull else Inr JNull) of
                               Inl e \<Rightarrow> (Done (Inl e), s1)
                             | Inr cursor \<Rightarrow>
                                 if \<not> truthy cursor then (Done (Inr trades'), s1)
                                 else (Again (st\<lparr>cur_trades := trades', cur_cursor := cursor\<rparr>), s1)))))"

text \<open>The \<^verbatim>\<open>while True\<close>; \<open>None\<close> says that the rounds given did not suffice.\<close>

fun fetch_trades_loop ::
  "nat \<Rightarrow> network \<Rightarrow> int option \<Rightarrow> json \<Rightarrow> trades_state \<Rightarrow> net_state \<Rightarrow>
   (py_error + json list) option \<times> net_state"
where
  "fetch_trades_loop 0 net start condition_id st s = (None, s)"
| "fetch_trades_loop (Suc fuel) net start condition_id st s =
     (case trades_round net start condition_id st s of
        (Done r, s1) \<Rightarrow> (Some r, s1)
      | (Again st', s1) \<Rightarrow> fetch_trades_loop fuel net start condition_id st' s1)"

definition fetch_trades_for_market ::
  "nat \<Rightarrow> network \<Rightarrow> int option \<Rightarrow> json \<Rightarrow> net_state \<Rightarrow>
   (py_error + json list) option \<times> net_state"
where
  "fetch_trades_for_market fuel net start condition_id s =
     fetch_trades_loop fuel net start condition_id
       \<lparr>cur_trades = [], cur_cursor = JNull, cur_limit = DATA_LIMIT, cur_retries_left = 3\<rparr> s"


text \<open>A network that gives every request the same answer.\<close>

definition always :: "http_result \<Rightarrow> network" where
  "always r = (\<lambda>k req. r)"


section \<open>Aggregation\<close>

text \<open>
  A row of the output, with the keys of the dictionary of lines 228 to 246. The fields
  carry the prefix \<open>row_\<close>, as the metrics bundle has fields of the same names.
\<close>

record event_row =
  row_event_key :: string
  row_url :: string
  row_markets_count :: nat
  row_unique_tokens :: nat
  row_total_volume_usd :: real
  row_traders_count :: nat
  row_total_trades :: nat
  row_avg_trade_size_usd :: real
  row_avg_volume_per_trader :: real
  row_avg_trades_per_day :: real
  row_min_trade_size_usd :: real
  row_max_trade_size_usd :: real
  row_active_days :: int
  row_rep_market_id :: json
  row_rep_condition_id :: json
  row_unique_events :: nat
  row_any_question :: json

definition event_url :: "string \<Rightarrow> string" where
  "event_url bslug = (if bslug \<noteq> [] then POLY_BASE @ ''/event/'' @ bslug else [])"

text \<open>
  \<^verbatim>\<open>groups.setdefault(bslug, []).append(m)\<close> on a dictionary that keeps the order in which
  its keys came.
\<close>

fun setdefault_append ::
  "(string \<times> json list) list \<Rightarrow> string \<Rightarrow> json \<Rightarrow> (string \<times> json list) list"
where
  "setdefault_append [] key m = [(key, [m])]"
| "setdefault_append ((k, ms) # rest) key m =
     (if k = key then (k, ms @ [m]) # rest else (k, ms) # setdefault_append rest key m)"

text \<open>The loop of lines 213 to 216.\<close>

fun group_markets ::
  "builtins \<Rightarrow> (string \<times> json list) list \<Rightarrow> json list \<Rightarrow> py_error + (string \<times> json list) list"
where
  "group_markets B groups [] = Inr groups"
| "group_markets B groups (m # ms) =
     (case dict_get m ''slug'' (JStr []) of
        Inl e \<Rightarrow> Inl e
      | Inr v \<Rightarrow> group_markets B (setdefault_append groups (base_slug (py_str B v)) m) ms)"

text \<open>\<^verbatim>\<open>float(x.get("volume", 0) or 0.0)\<close>\<close>

definition market_volume :: "builtins \<Rightarrow> json \<Rightarrow> py_error + real" where
  "market_volume B x = bindE (dict_get x ''volume'' (JInt 0)) (\<lambda>v. py_float B (py_or v (JFloat 0)))"

text \<open>
  \<^verbatim>\<open>max(xs, key=key)\<close>: the keys are computed in order, and a later element replaces the
  best one only where its key is greater.
\<close>

fun max_by_from :: "(json \<Rightarrow> py_error + real) \<Rightarrow> json \<Rightarrow> real \<Rightarrow> json list \<Rightarrow> py_error + json" where
  "max_by_from key best best_key [] = Inr best"
| "max_by_from key best best_key (x # xs) =
     (case key x of
        Inl e \<Rightarrow> Inl e
      | Inr k \<Rightarrow> if best_key < k then max_by_from key x k xs else max_by_from key best best_key xs)"

definition py_max_by :: "(json \<Rightarrow> py_error + real) \<Rightarrow> json list \<Rightarrow> py_error + json" where
  "py_max_by key xs =
     (case xs of
        [] \<Rightarrow> Inl ValueError
      | x # rest \<Rightarrow> (case key x of Inl e \<Rightarrow> Inl e | Inr k \<Rightarrow> max_by_from key x k rest))"

text \<open>\<^verbatim>\<open>sum(float(m.get("volume", 0) or 0.0) for m in mkts)\<close>\<close>

fun sum_volumes :: "builtins \<Rightarrow> real \<Rightarrow> json list \<Rightarrow> py_error + real" where
  "sum_volumes B acc [] = Inr acc"
| "sum_volumes B acc (m # ms) =
     (case market_volume B m of
        Inl e \<Rightarrow> Inl e
      | Inr v \<Rightarrow> sum_volumes B (acc + v) ms)"

text \<open>\<^verbatim>\<open>rep.get("conditionId") or rep.get("condition_id")\<close>\<close>

definition condition_of :: "json \<Rightarrow> py_error + json" where
  "condition_of rep =
     bindE (dict_get rep ''conditionId'' JNull) (\<lambda>c.
       if truthy c then Inr c else dict_get rep ''condition_id'' JNull)"

text \<open>The row of lines 228 to 246.\<close>

definition make_row ::
  "builtins \<Rightarrow> nat \<Rightarrow> string \<Rightarrow> json list \<Rightarrow> json \<Rightarrow> json \<Rightarrow> metrics \<Rightarrow> py_error + event_row"
where
  "make_row B unique_events bslug mkts rep cond mm =
     bindE (sum_volumes B 0 mkts) (\<lambda>total.
     bindE (dict_get rep ''id'' (JStr [])) (\<lambda>rep_id.
     bindE (dict_get rep ''question'' (JStr [])) (\<lambda>question.
       Inr \<lparr>row_event_key = bslug, row_url = event_url bslug,
            row_markets_count = length mkts, row_unique_tokens = length mkts,
            row_total_volume_usd = py_round total 6,
            row_traders_count = traders_count mm, row_total_trades = total_trades mm,
            row_avg_trade_size_usd = avg_trade_size_usd mm,
            row_avg_volume_per_trader = avg_volume_per_trader mm,
            row_avg_trades_per_day = avg_trades_per_day mm,
            row_min_trade_size_usd = min_trade_size_usd mm,
            row_max_trade_size_usd = max_trade_size_usd mm,
            row_active_days = active_days mm,
            row_rep_market_id = rep_id, row_rep_condition_id = py_or cond (JStr []),
            row_unique_events = unique_events, row_any_question = question\<rparr>)))"

text \<open>
  One round of the loop over the groups, lines 222 to 246. The trades of the
  representative are fetched with the rounds \<open>fuel\<close> allows; \<open>None\<close> says they did not
  suffice.
\<close>

definition event_of_group ::
  "nat \<Rightarrow> network \<Rightarrow> int option \<Rightarrow> builtins \<Rightarrow> nat \<Rightarrow> string \<times> json list \<Rightarrow> net_state \<Rightarrow>
   (py_error + event_row) option \<times> net_state"
where
  "event_of_group fuel net start B unique_events g s =
     (case bindE (py_max_by (market_volume B) (snd g)) (\<lambda>rep.
             bindE (condition_of rep) (\<lambda>cond. Inr (rep, cond))) of
        Inl e \<Rightarrow> (Some (Inl e), s)
      | Inr (rep, cond) \<Rightarrow>
          (case (if truthy cond then fetch_trades_for_market fuel net start cond s
                 else (Some (Inr []), s)) of
             (None, s1) \<Rightarrow> (None, s1)
           | (Some (Inl e), s1) \<Rightarrow> (Some (Inl e), s1)
           | (Some (Inr trades), s1) \<Rightarrow>
               (Some (bindE (compute_metrics B trades)
                        (make_row B unique_events (fst g) (snd g) rep cond)), s1)))"

fun aggregate_groups ::
  "nat \<Rightarrow> network \<Rightarrow> int option \<Rightarrow> builtins \<Rightarrow> nat \<Rightarrow> (string \<times> json list) list \<Rightarrow>
   event_row list \<Rightarrow> net_state \<Rightarrow> (py_error + event_row list) option \<times> net_state"
where
  "aggregate_groups fuel net start B unique_events [] rows s = (Some (Inr rows), s)"
| "aggregate_groups fuel net start B unique_events (g # gs) rows s =
     (case event_of_group fuel net start B unique_events g s of
        (None, s1) \<Rightarrow> (None, s1)
      | (Some (Inl e), s1) \<Rightarrow> (Some (Inl e), s1)
      | (Some (Inr row), s1) \<Rightarrow>
          aggregate_groups fuel net start B unique_events gs (rows @ [row]) s1)"

definition aggregate_events ::
  "nat \<Rightarrow> network \<Rightarrow> int option \<Rightarrow> builtins \<Rightarrow> json list \<Rightarrow> net_state \<Rightarrow>
   (py_error + event_row list) option \<times> net_state"
where
  "aggregate_events fuel net start B markets s =
     (case group_markets B [] markets of
        Inl e \<Rightarrow> (Some (Inl e), s)
      | Inr groups \<Rightarrow> aggregate_groups fuel net start B (length groups) groups [] s)"

text \<open>
  The group of a row, in the words of the data model: the markets of the input whose
  slug has the row's key as its base slug.
\<close>

definition market_key :: "builtins \<Rightarrow> json \<Rightarrow> string" where
  "market_key B m =
     (case dict_get m ''slug'' (JStr []) of Inr v \<Rightarrow> base_slug (py_str B v) | Inl e \<Rightarrow> [])"

definition group_of :: "builtins \<Rightarrow> json list \<Rightarrow> string \<Rightarrow> json list" where
  "group_of B markets key = filter (\<lambda>m. market_key B m = key) markets"

text \<open>Markets for the examples: an identifier, a slug and a volume.\<close>

definition market :: "int \<Rightarrow> string \<Rightarrow> json \<Rightarrow> json" where
  "market i slug volume = JObj [(''id'', JInt i), (''slug'', JStr slug), (''volume'', volume)]"

text \<open>
  What the grouping loop keeps true: the keys are distinct, every market seen has its key
  among them, and each key holds, in input order, the markets seen that have it.
\<close>

definition groups_ok :: "builtins \<Rightarrow> (string \<times> json list) list \<Rightarrow> json list \<Rightarrow> bool" where
  "groups_ok B groups ms =
     (distinct (map fst groups) \<and>
      (\<forall>m \<in> set ms. market_key B m \<in> fst ` set groups) \<and>
      (\<forall>g \<in> set groups. snd g = group_of B ms (fst g) \<and> snd g \<noteq> []))"

text \<open>
  The first element of a list among those whose key is greatest: no element before it
  has a key as great, and none after it a greater one.
\<close>

definition first_max :: "(json \<Rightarrow> py_error + real) \<Rightarrow> json list \<Rightarrow> json \<Rightarrow> bool" where
  "first_max key xs rep =
     (\<exists>pre post k. xs = pre @ rep # post \<and> key rep = Inr k \<and>
        (\<forall>m \<in> set pre. \<exists>v. key m = Inr v \<and> v < k) \<and>
        (\<forall>m \<in> set post. \<exists>v. key m = Inr v \<and> v \<le> k))"

text \<open>What a row owes to its group.\<close>

definition row_of_group :: "builtins \<Rightarrow> event_row \<Rightarrow> string \<times> json list \<Rightarrow> bool" where
  "row_of_group B row g =
     (row_event_key row = fst g \<and>
      (\<exists>vols. map (market_volume B) (snd g) = map Inr vols \<and>
         row_total_volume_usd row = py_round (sum_list vols) 6) \<and>
      (\<exists>rep. first_max (market_volume B) (snd g) rep \<and>
         dict_get rep ''id'' (JStr []) = Inr (row_rep_market_id row) \<and>
         dict_get rep ''question'' (JStr []) = Inr (row_any_question row) \<and>
         (\<exists>cond. condition_of rep = Inr cond \<and>
            row_rep_condition_id row = py_or cond (JStr []))))"

text \<open>Rows and markets for the examples.\<close>

definition zero_row :: event_row where
  "zero_row =
     \<lparr>row_event_key = [], row_url = [], row_markets_count = 0, row_unique_tokens = 0,
      row_total_volume_usd = 0, row_traders_count = 0, row_total_trades = 0,
      row_avg_trade_size_usd = 0, row_avg_volume_per_trader = 0, row_avg_trades_per_day = 0,
      row_min_trade_size_usd = 0, row_max_trade_size_usd = 0, row_active_days = 0,
      row_rep_market_id = JNull, row_rep_condition_id = JStr [], row_unique_events = 0,
      row_any_question = JStr []\<rparr>"

definition three_markets :: "json list" where
  "three_markets =
     [market 1 ''event-2025-06-01-yes'' (JInt 5), market 2 ''event-2025-06-01-no'' (JStr ''20''),
      market 3 ''event-2025-06-01'' (JFloat 3)]"


section \<open>Properties of the Python operations\<close>






lemma py_min_Min: "xs \<noteq> [] \<Longrightarrow> py_min xs = Inr (Min (set xs))"
proof (cases xs)
  case Nil
  assume "xs \<noteq> []"
  with Nil show ?thesis by simp
next
  case (Cons x ys)
  have "(\<lambda>v m :: real. if v < m then v else m) = min"
    by (auto simp: fun_eq_iff min_def)
  then show ?thesis using Cons Min.set_eq_fold [of x ys] by simp
qed

lemma py_max_Max: "xs \<noteq> [] \<Longrightarrow> py_max xs = Inr (Max (set xs))"
proof (cases xs)
  case Nil
  assume "xs \<noteq> []"
  with Nil show ?thesis by simp
next
  case (Cons x ys)
  have "(\<lambda>v m :: real. if m < v then v else m) = max"
    by (auto simp: fun_eq_iff max_def)
  then show ?thesis using Cons Max.set_eq_fold [of x ys] by simp
qed





lemma bindE_Inr: "bindE m f = Inr r \<Longrightarrow> \<exists>v. m = Inr v \<and> f v = Inr r"
  by (cases m) (auto simp: bindE_def)

lemma bindE_simps [simp]: "bindE (Inr v) f = f v" "bindE (Inl e) f = Inl e"
  by (simp_all add: bindE_def)

section \<open>Properties of the base slug\<close>



lemma split_on_nonempty: "split_on sep s \<noteq> []"
  by (induction s) (auto split: list.splits)

lemma split_on_sep_free: "t \<in> set (split_on sep s) \<Longrightarrow> sep \<notin> set t"
  by (induction s arbitrary: t) (auto split: list.splits if_splits)

lemma join_split_on: "join_with sep (split_on sep s) = s"
proof (induction s)
  case Nil
  show ?case by simp
next
  case (Cons c cs)
  obtain t ts where ts: "split_on sep cs = t # ts"
    using split_on_nonempty [of sep cs] by (cases "split_on sep cs") auto
  show ?case
  proof (cases "c = sep")
    case True
    with Cons ts show ?thesis by simp
  next
    case False
    with Cons ts show ?thesis by (cases ts) auto
  qed
qed

lemma split_on_sep_free_token: "sep \<notin> set t \<Longrightarrow> split_on sep t = [t]"
  by (induction t) auto

lemma split_on_token_append:
  "sep \<notin> set t \<Longrightarrow> split_on sep (t @ sep # s) = t # split_on sep s"
  by (induction t) auto

lemma split_join_with:
  "ts \<noteq> [] \<Longrightarrow> \<forall>t \<in> set ts. sep \<notin> set t \<Longrightarrow> split_on sep (join_with sep ts) = ts"
proof (induction sep ts rule: join_with.induct)
  case (1 sep)
  then show ?case by simp
next
  case (2 sep t)
  then show ?case by (simp add: split_on_sep_free_token)
next
  case (3 sep t u ts)
  then show ?case by (simp add: split_on_token_append)
qed

lemma join_with_append:
  "ts \<noteq> [] \<Longrightarrow> us \<noteq> [] \<Longrightarrow>
   join_with sep (ts @ us) = join_with sep ts @ sep # join_with sep us"
proof (induction sep ts rule: join_with.induct)
  case (1 sep)
  then show ?case by simp
next
  case (2 sep t)
  then show ?case by (cases us) auto
next
  case (3 sep t u ts)
  then show ?case by simp
qed

lemma split_on_append_tokens:
  assumes "suf \<noteq> []" and "\<forall>t \<in> set suf. sep \<notin> set t"
  shows "split_on sep (s @ sep # join_with sep suf) = split_on sep s @ suf"
proof -
  let ?ps = "split_on sep s"
  have ne: "?ps \<noteq> []" by (rule split_on_nonempty)
  have "s @ sep # join_with sep suf = join_with sep (?ps @ suf)"
    using join_with_append [OF ne assms(1), of sep] by (simp add: join_split_on)
  moreover have "split_on sep (join_with sep (?ps @ suf)) = ?ps @ suf"
    using assms ne by (intro split_join_with) (auto dest: split_on_sep_free)
  ultimately show ?thesis by simp
qed

lemma ONE_TOKEN_DATE_RE_hyphen: "ONE_TOKEN_DATE_RE t \<Longrightarrow> CHR ''-'' \<in> set t"
  by (induction t rule: ONE_TOKEN_DATE_RE.induct) auto

lemma span_step_split:
  "\<forall>t \<in> set parts. CHR ''-'' \<notin> set t \<Longrightarrow> i < length parts \<Longrightarrow>
   span_step parts i acc = (if three_token_date parts i then Some (i, i + 2) else acc)"
  using ONE_TOKEN_DATE_RE_hyphen [of "parts ! i"] by (auto simp: span_step_def)

lemma fold_span_step:
  assumes "\<forall>t \<in> set parts. CHR ''-'' \<notin> set t" and "k \<le> length parts"
  shows "fold (span_step parts) [0..<k] None =
     (if \<exists>i<k. three_token_date parts i
      then Some (GREATEST i. i < k \<and> three_token_date parts i,
                 (GREATEST i. i < k \<and> three_token_date parts i) + 2)
      else None)"
  using assms(2)
proof (induction k)
  case 0
  show ?case by simp
next
  case (Suc k)
  let ?P = "\<lambda>k i. i < k \<and> three_token_date parts i"
  have step: "fold (span_step parts) [0..<Suc k] None =
      (if three_token_date parts k then Some (k, k + 2) else fold (span_step parts) [0..<k] None)"
    using Suc.prems assms(1) by (simp add: span_step_split)
  show ?case
  proof (cases "three_token_date parts k")
    case True
    have "(GREATEST i. ?P (Suc k) i) = k"
      using True by (intro Greatest_equality) auto
    with True step show ?thesis by auto
  next
    case False
    have eq: "?P (Suc k) = ?P k"
      using False by (auto simp: fun_eq_iff less_Suc_eq)
    have ex: "(\<exists>i<Suc k. three_token_date parts i) = (\<exists>i<k. three_token_date parts i)"
      using False by (auto simp: less_Suc_eq)
    show ?thesis
      using False step Suc by (simp only: eq ex) simp
  qed
qed



lemma find_last_date_span_split:
  assumes "\<forall>t \<in> set parts. CHR ''-'' \<notin> set t"
  shows "find_last_date_span parts =
     (if \<exists>i. three_token_date parts i
      then Some (GREATEST i. three_token_date parts i, (GREATEST i. three_token_date parts i) + 2)
      else None)"
proof -
  have lt: "three_token_date parts i \<Longrightarrow> i < length parts" for i
    by (simp add: three_token_date_def)
  then have eq: "(\<lambda>i. i < length parts \<and> three_token_date parts i) = three_token_date parts"
    by (auto simp: fun_eq_iff)
  have ex: "(\<exists>i<length parts. three_token_date parts i) = (\<exists>i. three_token_date parts i)"
    using lt by auto
  show ?thesis
    unfolding find_last_date_span_def
    using fold_span_step [OF assms, of "length parts"] by (simp only: eq ex)
qed

lemma Greatest_three_token_date:
  assumes "three_token_date parts i"
  shows "three_token_date parts (GREATEST i. three_token_date parts i)"
    and "i \<le> (GREATEST i. three_token_date parts i)"
proof -
  have bound: "three_token_date parts j \<Longrightarrow> j \<le> length parts" for j
    by (simp add: three_token_date_def)
  show "three_token_date parts (GREATEST i. three_token_date parts i)"
    using GreatestI_nat [of "three_token_date parts", OF assms bound] .
  show "i \<le> (GREATEST i. three_token_date parts i)"
    using Greatest_le_nat [of "three_token_date parts", OF assms bound] .
qed

lemma base_slug_last_span:
  assumes "three_token_date (split_on (CHR ''-'') slug) i"
  shows "base_slug slug =
     join_with (CHR ''-'')
       (take ((GREATEST i. three_token_date (split_on (CHR ''-'') slug) i) + 3)
          (split_on (CHR ''-'') slug))"
proof -
  have "slug \<noteq> []"
    using assms by (auto simp: three_token_date_def)
  moreover have "\<exists>i. three_token_date (split_on (CHR ''-'') slug) i"
    using assms by blast
  ultimately show ?thesis
    using find_last_date_span_split [of "split_on (CHR ''-'') slug"]
    by (simp add: base_slug_def split_on_sep_free eval_nat_numeral Let_def)
qed

lemma base_slug_no_span:
  assumes "\<nexists>i. three_token_date (split_on (CHR ''-'') slug) i"
  shows "base_slug slug = slug"
  using assms find_last_date_span_split [of "split_on (CHR ''-'') slug"]
  by (simp add: base_slug_def split_on_sep_free)

lemma three_token_date_append:
  "i + 2 < length parts \<Longrightarrow> three_token_date (parts @ suffix) i = three_token_date parts i"
  by (simp add: three_token_date_def nth_append)

lemma append_tokens_split:
  assumes "\<forall>t \<in> set suffix. CHR ''-'' \<notin> set t"
  shows "split_on (CHR ''-'') (append_tokens slug suffix) = split_on (CHR ''-'') slug @ suffix"
proof (cases suffix)
  case Nil
  then show ?thesis by (simp add: append_tokens_def)
next
  case (Cons t ts)
  have "concat (map ((#) c) us) = c # join_with c us" if "us \<noteq> []" for c :: char and us
    using that by (induction c us rule: join_with.induct) auto
  from this [of suffix "CHR ''-''"]
  have "append_tokens slug suffix = slug @ CHR ''-'' # join_with (CHR ''-'') suffix"
    using Cons unfolding append_tokens_def by blast
  then show ?thesis
    using split_on_append_tokens [of suffix "CHR ''-''" slug] assms Cons by simp
qed

subsection \<open>Agreement with the specification's resolver\<close>

text \<open>
  On a slug without a newline character the patterns accept exactly the tokens the
  specification names, and \<open>base_slug\<close> computes the specification's key.
\<close>

lemma split_on_chars: "(\<Union>t \<in> set (split_on sep s). set t) \<subseteq> set s"
proof (induction s)
  case Nil
  show ?case by simp
next
  case (Cons c cs)
  obtain t ts where ts: "split_on sep cs = t # ts"
    using split_on_nonempty [of sep cs] by (cases "split_on sep cs") auto
  with Cons show ?case by auto
qed

lemma split_on_subset: "t \<in> set (split_on sep s) \<Longrightarrow> set t \<subseteq> set s"
  using split_on_chars [of sep s] by blast

lemma re_dollar_no_newline: "CHR 0x0A \<notin> set rest \<Longrightarrow> re_dollar rest = (rest = [])"
  by (auto simp: re_dollar_def)

lemma YEAR_RE_spec: "CHR 0x0A \<notin> set t \<Longrightarrow> YEAR_RE t = spec_year t"
proof (induction t rule: YEAR_RE.induct)
  case (1 y1 y2 y3 y4 rest)
  then have "re_dollar rest = (rest = [])" by (simp add: re_dollar_no_newline)
  then show ?case by (auto simp: spec_year_def)
qed (simp_all add: spec_year_def)

lemma MONTH_RE_spec: "CHR 0x0A \<notin> set t \<Longrightarrow> MONTH_RE t = spec_month t"
proof (induction t rule: MONTH_RE.induct)
  case (1 a b rest)
  then have r: "re_dollar rest = (rest = [])" by (simp add: re_dollar_no_newline)
  show ?case
  proof (cases "rest = []")
    case False
    then show ?thesis using r by (simp add: spec_month_def)
  next
    case True
    consider "a = CHR ''0''" | "a = CHR ''1''" | "a \<noteq> CHR ''0'' \<and> a \<noteq> CHR ''1''"
      by blast
    then show ?thesis
    proof cases
      case 1
      then show ?thesis using True r by (simp add: spec_month_def)
    next
      case 2
      then show ?thesis using True r by (simp add: spec_month_def)
    next
      case 3
      then show ?thesis using True r by (simp add: spec_month_def)
    qed
  qed
qed (simp_all add: spec_month_def)

lemma DAY_RE_spec: "CHR 0x0A \<notin> set t \<Longrightarrow> DAY_RE t = spec_day t"
proof (induction t rule: DAY_RE.induct)
  case (1 a b rest)
  then have r: "re_dollar rest = (rest = [])" by (simp add: re_dollar_no_newline)
  show ?case
  proof (cases "rest = []")
    case False
    then show ?thesis using r by (simp add: spec_day_def)
  next
    case True
    consider "a = CHR ''0''" | "a = CHR ''1''" | "a = CHR ''2''" | "a = CHR ''3''"
      | "a \<noteq> CHR ''0'' \<and> a \<noteq> CHR ''1'' \<and> a \<noteq> CHR ''2'' \<and> a \<noteq> CHR ''3''"
      by blast
    then show ?thesis
    proof cases
      case 1
      then show ?thesis using True r by (simp add: spec_day_def is_digit_def)
    next
      case 2
      then show ?thesis using True r by (simp add: spec_day_def is_digit_def)
    next
      case 3
      then show ?thesis using True r by (simp add: spec_day_def is_digit_def)
    next
      case 4
      then show ?thesis using True r by (simp add: spec_day_def is_digit_def)
    next
      case 5
      then show ?thesis using True r by (simp add: spec_day_def is_digit_def)
    qed
  qed
qed (simp_all add: spec_day_def)

lemma spec_compact_date_hyphen: "spec_compact_date t \<Longrightarrow> CHR ''-'' \<in> set t"
proof -
  assume "spec_compact_date t"
  then have "4 < length t" and "t ! 4 = CHR ''-''"
    by (simp_all add: spec_compact_date_def)
  then show ?thesis by (metis nth_mem)
qed

lemma spec_match_at_split:
  assumes "\<forall>t \<in> set parts. CHR ''-'' \<notin> set t \<and> CHR 0x0A \<notin> set t" and "i < length parts"
  shows "spec_match_at parts i = (if three_token_date parts i then Some (i + 2) else None)"
proof -
  have "\<not> spec_compact_date (parts ! i)"
    using assms spec_compact_date_hyphen [of "parts ! i"] by auto
  moreover have "i + 2 < length parts \<Longrightarrow>
      YEAR_RE (parts ! i) = spec_year (parts ! i) \<and>
      MONTH_RE (parts ! (i + 1)) = spec_month (parts ! (i + 1)) \<and>
      DAY_RE (parts ! (i + 2)) = spec_day (parts ! (i + 2))"
    using assms(1) by (simp add: YEAR_RE_spec MONTH_RE_spec DAY_RE_spec)
  ultimately show ?thesis
    by (auto simp: spec_match_at_def three_token_date_def)
qed

lemma map_filter_rev_upt:
  assumes "\<forall>t \<in> set parts. CHR ''-'' \<notin> set t \<and> CHR 0x0A \<notin> set t" and "k \<le> length parts"
  shows "(case List.map_filter (spec_match_at parts) (rev [0..<k]) of [] \<Rightarrow> a | e # _ \<Rightarrow> b e) =
     (case fold (span_step parts) [0..<k] None of None \<Rightarrow> a | Some (_, e) \<Rightarrow> b e)"
  using assms(2)
proof (induction k)
  case 0
  show ?case by (simp add: List.map_filter_simps)
next
  case (Suc k)
  have hy: "\<forall>t \<in> set parts. CHR ''-'' \<notin> set t" using assms(1) by simp
  have "k < length parts" using Suc.prems by simp
  then show ?case
    using Suc spec_match_at_split [OF assms(1), of k] span_step_split [OF hy, of k]
    by (simp add: List.map_filter_simps)
qed

lemma base_slug_spec_base_key:
  assumes "CHR 0x0A \<notin> set slug"
  shows "base_slug slug = spec_base_key slug"
proof -
  let ?ps = "split_on (CHR ''-'') slug"
  have toks: "\<forall>t \<in> set ?ps. CHR ''-'' \<notin> set t \<and> CHR 0x0A \<notin> set t"
    using assms split_on_subset [of _ "CHR ''-''" slug] split_on_sep_free [of _ "CHR ''-''" slug]
    by blast
  have empty: "spec_base_key [] = []"
    by (simp add: spec_base_key_def spec_match_at_def spec_compact_date_def List.map_filter_simps)
  show ?thesis
  proof (cases "slug = []")
    case True
    then show ?thesis using empty by (simp add: base_slug_def)
  next
    case False
    then show ?thesis
      using map_filter_rev_upt [OF toks order_refl, of slug "\<lambda>e. join_with (CHR ''-'') (take (e + 1) ?ps)"]
      by (simp add: base_slug_def spec_base_key_def find_last_date_span_def Let_def
            split: option.splits prod.splits)
  qed
qed

text \<open>
  C1. The claim: for every slug, \<open>base_slug\<close> cuts the slug after the last date span (one
  token \<^verbatim>\<open>YYYY-MM-DD\<close>, or three tokens: four digits, a month \<^verbatim>\<open>01\<close> to \<^verbatim>\<open>12\<close>, a day
  \<^verbatim>\<open>01\<close> to \<^verbatim>\<open>31\<close>) and returns a slug without a span unchanged. The patterns end in
  \<^verbatim>\<open>$\<close>, which also matches before a final newline, so a token of four digits and a
  newline passes \<open>YEAR_RE\<close>. In the slug below no token is a four-digit year, the
  specification's key is the slug itself, and \<open>base_slug\<close> cuts it after \<^verbatim>\<open>01\<close>.
\<close>

theorem base_slug_newline_token:
  "base_slug (''2025'' @ [CHR 0x0A] @ ''-06-01-yes'') = ''2025'' @ [CHR 0x0A] @ ''-06-01'' \<and>
   spec_base_key (''2025'' @ [CHR 0x0A] @ ''-06-01-yes'') = ''2025'' @ [CHR 0x0A] @ ''-06-01-yes''"
  by code_simp

subsection \<open>Appending suffix tokens\<close>

text \<open>
  C4, as amended. Let a slug hold a date span, and let suffix tokens (without hyphens) be
  appended to it. When no date span of the longer token list starts in the last two
  tokens of the slug or in the appended tokens, \<open>base_slug\<close> of the longer slug is
  \<open>base_slug\<close> of the slug.
\<close>

theorem base_slug_suffix_stable:
  assumes date: "three_token_date (split_on (CHR ''-'') slug) i"
    and toks: "\<forall>t \<in> set suffix. CHR ''-'' \<notin> set t"
    and late: "\<forall>j \<in> set [length (split_on (CHR ''-'') slug) - 2 ..<
                           length (split_on (CHR ''-'') slug) + length suffix].
                 \<not> three_token_date (split_on (CHR ''-'') slug @ suffix) j"
  shows "base_slug (append_tokens slug suffix) = base_slug slug"
proof -
  let ?ps = "split_on (CHR ''-'') slug"
  have same: "three_token_date (?ps @ suffix) j = three_token_date ?ps j" for j
  proof (cases "j + 2 < length ?ps")
    case True
    then show ?thesis by (rule three_token_date_append)
  next
    case False
    have "\<not> three_token_date (?ps @ suffix) j"
    proof (cases "j < length ?ps + length suffix")
      case True
      with False late show ?thesis by simp
    next
      case False
      then show ?thesis by (simp add: three_token_date_def)
    qed
    moreover have "\<not> three_token_date ?ps j" using False by (simp add: three_token_date_def)
    ultimately show ?thesis by simp
  qed
  then have fun_same: "three_token_date (?ps @ suffix) = three_token_date ?ps"
    by (simp add: fun_eq_iff)
  let ?g = "GREATEST i. three_token_date ?ps i"
  have "three_token_date ?ps ?g" using Greatest_three_token_date(1) [OF date] .
  then have len: "?g + 3 \<le> length ?ps" by (simp add: three_token_date_def)
  have "three_token_date (split_on (CHR ''-'') (append_tokens slug suffix)) i"
    using date by (simp add: append_tokens_split [OF toks] fun_same)
  from base_slug_last_span [OF this]
  have "base_slug (append_tokens slug suffix) = join_with (CHR ''-'') (take (?g + 3) (?ps @ suffix))"
    by (simp add: append_tokens_split [OF toks] fun_same)
  also have "\<dots> = join_with (CHR ''-'') (take (?g + 3) ?ps)"
    using len by simp
  also have "\<dots> = base_slug slug"
    using base_slug_last_span [OF date] by simp
  finally show ?thesis .
qed

theorem base_slug_suffix_stable_witness:
  "base_slug (append_tokens ''event-2025-06-01'' [''yes'', ''8pm'']) = ''event-2025-06-01'' \<and>
   base_slug ''event-2025-06-01'' = ''event-2025-06-01''"
proof -
  have date: "three_token_date (split_on (CHR ''-'') ''event-2025-06-01'') 1"
    by code_simp
  have toks: "\<forall>t \<in> set [''yes'', ''8pm'']. CHR ''-'' \<notin> set t"
    by simp
  have late: "\<forall>j \<in> set [length (split_on (CHR ''-'') ''event-2025-06-01'') - 2 ..<
                 length (split_on (CHR ''-'') ''event-2025-06-01'') + length [''yes'', ''8pm'']].
               \<not> three_token_date (split_on (CHR ''-'') ''event-2025-06-01'' @ [''yes'', ''8pm'']) j"
    by code_simp
  have "base_slug ''event-2025-06-01'' = ''event-2025-06-01''"
    by code_simp
  then show ?thesis
    using base_slug_suffix_stable [OF date toks late] by simp
qed

text \<open>
  C4 as stated, for every sequence of suffix tokens, fails: appended tokens that read as a
  date move the last span, and the key with it.
\<close>

theorem base_slug_suffix_counterexample:
  "three_token_date (split_on (CHR ''-'') ''event-2025-06-01'') 1 \<and>
   base_slug ''event-2025-06-01'' = ''event-2025-06-01'' \<and>
   base_slug (append_tokens ''event-2025-06-01'' [''2026'', ''01'', ''01'']) =
     ''event-2025-06-01-2026-01-01''"
  by code_simp

section \<open>Properties of the trade metrics\<close>



lemma acc_ok_init: "acc_ok trade_acc_init"
  by (simp add: acc_ok_def trade_acc_init_def)

lemma note_timestamp_fields [simp]:
  "vals (note_timestamp ts a) = vals a" "seen (note_timestamp ts a) = seen a"
  by (simp_all add: note_timestamp_def Let_def split: option.splits)

lemma note_timestamp_ok:
  assumes "case first_ts a of None \<Rightarrow> last_ts a = None
           | Some f \<Rightarrow> (case last_ts a of None \<Rightarrow> False | Some l \<Rightarrow> num_val f \<le> num_val l)"
  shows "case first_ts (note_timestamp ts a) of None \<Rightarrow> last_ts (note_timestamp ts a) = None
         | Some f \<Rightarrow> (case last_ts (note_timestamp ts a) of
                        None \<Rightarrow> False | Some l \<Rightarrow> num_val f \<le> num_val l)"
  using assms by (auto simp: note_timestamp_def Let_def split: option.splits)

lemma trade_step_ok:
  assumes "trade_step B a tr = Inr a'" and "acc_ok a"
  shows "acc_ok a' \<and> length (vals a') = Suc (length (vals a))"
proof -
  from assms(1) obtain size price addr ts where a':
    "a' = note_timestamp ts
            (a\<lparr>vals := vals a @ [\<bar>size * price\<bar>],
               seen := (if addr \<noteq> [] then insert addr (seen a) else seen a)\<rparr>)"
    unfolding trade_step_def by (auto dest!: bindE_Inr)
  let ?b = "a\<lparr>vals := vals a @ [\<bar>size * price\<bar>],
               seen := (if addr \<noteq> [] then insert addr (seen a) else seen a)\<rparr>"
  have fin: "finite (seen a)" and le: "card (seen a) \<le> length (vals a)"
    using assms(2) by (simp_all add: acc_ok_def)
  have "card (insert addr (seen a)) \<le> Suc (card (seen a))"
    using fin by (simp add: card_insert_if)
  then have card: "card (seen ?b) \<le> length (vals ?b)"
    using le by auto
  have ts_ok: "case first_ts ?b of None \<Rightarrow> last_ts ?b = None
      | Some f \<Rightarrow> (case last_ts ?b of None \<Rightarrow> False | Some l \<Rightarrow> num_val f \<le> num_val l)"
    using assms(2) by (auto simp: acc_ok_def split: option.splits)
  show ?thesis
    unfolding a' acc_ok_def
    using note_timestamp_ok [OF ts_ok, of ts] card fin assms(2)
    by (simp add: acc_ok_def)
qed

lemma trades_loop_ok:
  "trades_loop B a trs = Inr a' \<Longrightarrow> acc_ok a \<Longrightarrow>
   acc_ok a' \<and> length (vals a') = length (vals a) + length trs"
proof (induction trs arbitrary: a)
  case Nil
  then show ?case by simp
next
  case (Cons tr trs)
  from Cons.prems(1) obtain a1 where s: "trade_step B a tr = Inr a1"
    and l: "trades_loop B a1 trs = Inr a'"
    by (cases "trade_step B a tr") auto
  from trade_step_ok [OF s Cons.prems(2)] Cons.IH [OF l] show ?case by simp
qed



lemma summarise_nonempty:
  assumes "vals a \<noteq> []"
  shows "summarise a =
     Inr \<lparr>traders_count = card (seen a), total_trades = length (vals a),
          total_volume_usd = py_round (sum_list (vals a)) 6,
          avg_trade_size_usd = py_round (sum_list (vals a) / of_nat (length (vals a))) 6,
          avg_volume_per_trader =
            py_round (if card (seen a) \<noteq> 0 then sum_list (vals a) / of_nat (card (seen a)) else 0) 6,
          avg_trades_per_day =
            py_round (if active_of (first_ts a) (last_ts a) \<noteq> 0
                      then of_nat (length (vals a)) / of_int (active_of (first_ts a) (last_ts a))
                      else 0) 6,
          min_trade_size_usd = py_round (Min (set (vals a))) 6,
          max_trade_size_usd = py_round (Max (set (vals a))) 6,
          active_days = active_of (first_ts a) (last_ts a), traders = seen a\<rparr>"
  using assms unfolding summarise_def Let_def
  by (simp add: py_min_Min py_max_Max py_truediv_def)

lemma compute_metrics_nonempty:
  assumes "compute_metrics B trades = Inr b" and "trades \<noteq> []"
  obtains a where "trades_loop B trade_acc_init trades = Inr a" and "summarise a = Inr b"
    and "acc_ok a" and "length (vals a) = length trades"
proof -
  from assms obtain a where l: "trades_loop B trade_acc_init trades = Inr a"
    and s: "summarise a = Inr b"
    by (auto simp: compute_metrics_def dest!: bindE_Inr)
  from trades_loop_ok [OF l acc_ok_init]
  have "acc_ok a" and "length (vals a) = length trades"
    by (simp_all add: trade_acc_init_def)
  with l s that show ?thesis by blast
qed












subsection \<open>The active days\<close>

text \<open>
  The active days of every bundle \<open>compute_metrics\<close> returns: none where no trade has a
  numeric timestamp, none where the least or the greatest of them is zero, and the
  inclusive span in days otherwise.
\<close>

lemma truthy_number: "is_number v \<Longrightarrow> truthy v = (num_val v \<noteq> 0)"
  by (cases v) auto

lemma note_timestamp_bounds:
  assumes "bounds_ok a tss"
  shows "bounds_ok (note_timestamp ts a) (tss @ (if is_number ts then [num_val ts] else []))"
proof (cases "is_number ts")
  case False
  with assms show ?thesis by (simp add: note_timestamp_def)
next
  case True
  show ?thesis
  proof (cases "tss = []")
    case True
    with assms \<open>is_number ts\<close> show ?thesis
      by (simp add: bounds_ok_def note_timestamp_def)
  next
    case False
    with assms obtain f l where fl: "first_ts a = Some f" "last_ts a = Some l"
      "is_number f" "is_number l" "num_val f = Min (set tss)" "num_val l = Max (set tss)"
      by (auto simp: bounds_ok_def)
    have mn: "Min (insert (num_val ts) (set tss)) = min (num_val ts) (Min (set tss))"
      using False by simp
    have mx: "Max (insert (num_val ts) (set tss)) = max (num_val ts) (Max (set tss))"
      using False by simp
    show ?thesis
      using True fl unfolding bounds_ok_def
      by (auto simp: note_timestamp_def Let_def mn mx min_def max_def
            simp del: Min_insert Max_insert)
  qed
qed

lemma trade_step_bounds:
  assumes "trade_step B a tr = Inr a'" and "bounds_ok a tss"
  shows "bounds_ok a' (tss @ trade_timestamps [tr])"
proof -
  from assms(1) obtain size price addr ts where ts: "dict_get tr ''timestamp'' JNull = Inr ts"
    and a': "a' = note_timestamp ts
            (a\<lparr>vals := vals a @ [\<bar>size * price\<bar>],
               seen := (if addr \<noteq> [] then insert addr (seen a) else seen a)\<rparr>)"
    unfolding trade_step_def by (auto dest!: bindE_Inr)
  let ?b = "a\<lparr>vals := vals a @ [\<bar>size * price\<bar>],
               seen := (if addr \<noteq> [] then insert addr (seen a) else seen a)\<rparr>"
  have "bounds_ok ?b tss" using assms(2) by (cases "tss = []") (auto simp: bounds_ok_def)
  from note_timestamp_bounds [OF this, of ts] show ?thesis
    unfolding a' by (simp add: trade_timestamps_def ts)
qed

lemma trade_timestamps_Cons:
  "trade_timestamps (tr # trs) = trade_timestamps [tr] @ trade_timestamps trs"
  by (simp add: trade_timestamps_def)

lemma trades_loop_bounds:
  "trades_loop B a trs = Inr a' \<Longrightarrow> bounds_ok a tss \<Longrightarrow>
   bounds_ok a' (tss @ trade_timestamps trs)"
proof (induction trs arbitrary: a tss)
  case Nil
  then show ?case by (simp add: trade_timestamps_def)
next
  case (Cons tr trs)
  from Cons.prems(1) obtain a1 where s: "trade_step B a tr = Inr a1"
    and l: "trades_loop B a1 trs = Inr a'"
    by (cases "trade_step B a tr") auto
  from Cons.IH [OF l trade_step_bounds [OF s Cons.prems(2)]]
  show ?case by (simp add: trade_timestamps_Cons [of tr trs])
qed

lemma active_of_bounds:
  assumes "bounds_ok a tss"
  shows "active_of (first_ts a) (last_ts a) =
     (if tss = [] \<or> Min (set tss) = 0 \<or> Max (set tss) = 0 then 0
      else \<lfloor>(Max (set tss) - Min (set tss)) / 86400\<rfloor> + 1)"
proof (cases "tss = []")
  case True
  with assms show ?thesis by (simp add: bounds_ok_def active_of_def)
next
  case False
  with assms obtain f l where fl: "first_ts a = Some f" "last_ts a = Some l"
    "is_number f" "is_number l" "num_val f = Min (set tss)" "num_val l = Max (set tss)"
    by (auto simp: bounds_ok_def)
  have "Min (set tss) \<le> Max (set tss)" using False by (simp add: Min_le_iff)
  then have "py_int ((Max (set tss) - Min (set tss)) / 86400) =
      \<lfloor>(Max (set tss) - Min (set tss)) / 86400\<rfloor>"
    by (simp add: py_int_def)
  then show ?thesis
    using False fl by (simp add: active_of_def truthy_number)
qed

lemma compute_metrics_active_days:
  assumes "compute_metrics B trs = Inr b"
  shows "active_days b =
     (if trade_timestamps trs = [] \<or> Min (set (trade_timestamps trs)) = 0 \<or>
         Max (set (trade_timestamps trs)) = 0
      then 0
      else \<lfloor>(Max (set (trade_timestamps trs)) - Min (set (trade_timestamps trs))) / 86400\<rfloor> + 1)"
proof (cases "trs = []")
  case True
  with assms have "b = zero_metrics" by (simp add: compute_metrics_def)
  with True show ?thesis by (simp add: zero_metrics_def trade_timestamps_def)
next
  case False
  from compute_metrics_nonempty [OF assms False] obtain a
    where l: "trades_loop B trade_acc_init trs = Inr a" and s: "summarise a = Inr b"
      and len: "length (vals a) = length trs"
    by blast
  have ne: "vals a \<noteq> []" using len False by auto
  have "bounds_ok trade_acc_init []" by (simp add: bounds_ok_def trade_acc_init_def)
  from trades_loop_bounds [OF l this] have "bounds_ok a (trade_timestamps trs)" by simp
  from active_of_bounds [OF this] s summarise_nonempty [OF ne] show ?thesis by auto
qed

text \<open>
  C2. The claim: the active days are \<open>\<lfloor>(max - min) / 86400\<rfloor> + 1\<close> as soon as one trade
  carries a numeric timestamp, so one trade of size 10 and price 0.5 has one active day
  and one trade per day, whatever its timestamp. Line 187 tests \<^verbatim>\<open>first_ts and last_ts\<close>
  for truth where the loop above it tests \<^verbatim>\<open>first_ts is None\<close>, and the timestamp 0 is
  false: that trade gets no active day and no trade per day. With the timestamp
  1700000000 it gets one of each.
\<close>

theorem compute_metrics_zero_timestamp:
  "compute_metrics example_builtins [trade_10_half (JInt 0)] =
     Inr \<lparr>traders_count = 0, total_trades = 1, total_volume_usd = 5, avg_trade_size_usd = 5,
          avg_volume_per_trader = 0, avg_trades_per_day = 0, min_trade_size_usd = 5,
          max_trade_size_usd = 5, active_days = 0, traders = {}\<rparr> \<and>
   compute_metrics example_builtins [trade_10_half (JInt 1700000000)] =
     Inr \<lparr>traders_count = 0, total_trades = 1, total_volume_usd = 5, avg_trade_size_usd = 5,
          avg_volume_per_trader = 0, avg_trades_per_day = 1, min_trade_size_usd = 5,
          max_trade_size_usd = 5, active_days = 1, traders = {}\<rparr>"
  by code_simp

section \<open>Properties of the fetcher and of the trade window\<close>








subsection \<open>Responses of another shape\<close>

lemma listing_page_other:
  "\<not> is_list v \<Longrightarrow> \<not> is_dict v \<Longrightarrow> listing_page v = Inr (JArr [])"
  by (simp add: listing_page_def)

text \<open>
  C7. The claim: a response that is neither a list nor a dictionary with a list under
  \<^verbatim>\<open>data\<close> counts as an empty set of records on all three paths. The listings do so
  for a response that is no list and no dictionary (\<^verbatim>\<open>else []\<close>, lines 56 and 85). Line
  148 of the trade path has no such branch: it takes a response that is no dictionary as
  the page itself, and a number that is not zero is then iterated. On the response
  \<^verbatim>\<open>5\<close> the trade path raises \<^verbatim>\<open>TypeError\<close>, where the market listing returns no
  record.
\<close>

theorem trades_scalar_response:
  "fetch_trades_for_market 1 (always (Response 200 [] (Inr (JInt 5)) [])) None (JStr ''0xc'')
       net_start =
     (Some (Inl TypeError), \<lparr>requests = 1, slept = []\<rparr>) \<and>
   fetch_markets_by_tag 1 (always (Response 200 [] (Inr (JInt 5)) [])) (JInt 7) (JStr ''true'')
       net_start =
     (Some (Inr []), \<lparr>requests = 1, slept = []\<rparr>)"
  by code_simp

subsection \<open>Exhausting the attempts\<close>

text \<open>
  When no attempt returns, \<open>get_json\<close> makes \<open>MAX_RETRIES\<close> requests and raises a
  \<^verbatim>\<open>RuntimeError\<close> whose message ends in the last error observed; so it does under
  every status outside 200 to 299.
\<close>

lemma get_json_from_exhausts:
  assumes "\<forall>k < length attempts. \<forall>v. try_once (net (requests s + k) req) \<noteq> Returned v"
  shows "fst (get_json_from net req attempts last_error s) =
           Inl (RuntimeError (''GET failed after '' @ show_nat MAX_RETRIES @ '' attempts: '' @
             str_last_error
               (last_observed last_error
                  (map (\<lambda>k. try_once (net (requests s + k) req)) [0..<length attempts])))) \<and>
         requests (snd (get_json_from net req attempts last_error s)) =
           requests s + length attempts"
  using assms
proof (induction attempts arbitrary: last_error s)
  case Nil
  show ?case by simp
next
  case (Cons a attempts)
  from Cons.prems have first: "try_once (net (requests s) req) \<noteq> Returned v" for v
    by force
  have later: "\<forall>k < length attempts. \<forall>v. try_once (net (requests t + k) req) \<noteq> Returned v"
    if "requests t = Suc (requests s)" for t :: net_state
    using Cons.prems that by force
  have outs: "map (\<lambda>k. try_once (net (requests s + k) req)) [0..<length (a # attempts)] =
      try_once (net (requests s) req) #
      map (\<lambda>k. try_once (net (requests t + k) req)) [0..<length attempts]"
    if "requests t = Suc (requests s)" for t :: net_state
    using that by (simp add: map_upt_Suc del: upt_Suc)
  show ?case
  proof (cases "try_once (net (requests s) req)")
    case (Returned v)
    with first [of v] show ?thesis by simp
  next
    case (Raised e)
    let ?t = "s\<lparr>requests := Suc (requests s), slept := slept s @ [BACKOFF ^ (a - 1)]\<rparr>"
    have t: "requests ?t = Suc (requests s)" by simp
    from Cons.IH [OF later [OF t], of "Some e"] Raised show ?thesis
      unfolding outs [OF t] by (simp add: Let_def)
  next
    case Passed
    let ?t = "s\<lparr>requests := Suc (requests s)\<rparr>"
    have t: "requests ?t = Suc (requests s)" by simp
    from Cons.IH [OF later [OF t], of last_error] Passed show ?thesis
      unfolding outs [OF t] by (simp add: Let_def)
  qed
qed

lemma get_json_exhausts:
  assumes "\<forall>k < MAX_RETRIES. \<forall>v. try_once (net (requests s + k) req) \<noteq> Returned v"
  shows "\<exists>s'. get_json net req s =
           (Inl (RuntimeError (''GET failed after '' @ show_nat MAX_RETRIES @ '' attempts: '' @
              str_last_error
                (last_observed None
                   (map (\<lambda>k. try_once (net (requests s + k) req)) [0..<MAX_RETRIES])))), s') \<and>
           requests s' = requests s + MAX_RETRIES"
proof -
  have len: "length [1..<Suc MAX_RETRIES] = MAX_RETRIES" by simp
  from get_json_from_exhausts [of "[1..<Suc MAX_RETRIES]" net s req None] assms
  show ?thesis
    unfolding get_json_def len by (cases "get_json_from net req [1..<Suc MAX_RETRIES] None s") simp
qed

lemma try_once_not_2xx:
  "\<not> (200 \<le> status \<and> status < 300) \<Longrightarrow> try_once (Response status body decoded line) \<noteq> Returned v"
  by auto

lemma get_json_status_exhausts:
  assumes "\<not> (200 \<le> status \<and> status < 300)"
  shows "\<exists>m s'. get_json (always (Response status body decoded line)) req s =
           (Inl (RuntimeError m), s') \<and> requests s' = requests s + MAX_RETRIES"
proof -
  have "\<forall>k < MAX_RETRIES. \<forall>v.
      try_once (always (Response status body decoded line) (requests s + k) req) \<noteq> Returned v"
    using assms try_once_not_2xx [of status body decoded line]
    by (simp add: always_def del: try_once.simps)
  from get_json_exhausts [of "always (Response status body decoded line)" s req, OF this]
  show ?thesis by blast
qed

text \<open>
  C8. The claim: a status that is neither 2xx nor retryable uses up an attempt as a
  retryable one does, its error being raised and caught, and the final failure wraps the
  last error observed. \<^verbatim>\<open>raise_for_status\<close> raises for the statuses 400 to 599 only.
  Under the status 304 no attempt raises: the loop neither records an error nor sleeps,
  and the failure after five requests wraps \<^verbatim>\<open>None\<close>. Under 404, as under the
  retryable 503, each attempt raises, is caught and is followed by its sleep.
\<close>

theorem get_json_status_304:
  "get_json (always (Response 304 [] (Inl []) [])) (URL_TRADES, []) net_start =
     (Inl (RuntimeError ''GET failed after 5 attempts: None''), \<lparr>requests = 5, slept = []\<rparr>) \<and>
   get_json (always (Response 404 [] (Inl []) ''404 Client Error'')) (URL_TRADES, []) net_start =
     (Inl (RuntimeError ''GET failed after 5 attempts: 404 Client Error''),
      \<lparr>requests = 5, slept = [1, 9 / 5, 81 / 25, 729 / 125, 6561 / 625]\<rparr>) \<and>
   get_json (always (Response 503 ''busy'' (Inl []) [])) (URL_TRADES, []) net_start =
     (Inl (RuntimeError ''GET failed after 5 attempts: HTTP 503: busy''),
      \<lparr>requests = 5, slept = [1, 9 / 5, 81 / 25, 729 / 125, 6561 / 625]\<rparr>)"
  by code_simp

section \<open>Properties of the aggregation\<close>

subsection \<open>The groups\<close>

lemma setdefault_append_keys:
  "fst ` set (setdefault_append groups key m) = insert key (fst ` set groups)"
  by (induction groups key m rule: setdefault_append.induct) auto

lemma setdefault_append_distinct:
  "distinct (map fst groups) \<Longrightarrow> distinct (map fst (setdefault_append groups key m))"
proof (induction groups key m rule: setdefault_append.induct)
  case (1 key m)
  show ?case by simp
next
  case (2 k ms rest key m)
  then show ?case
    using setdefault_append_keys [of rest key m] by (auto simp: image_iff)
qed

lemma setdefault_append_member:
  assumes "g \<in> set (setdefault_append groups key m)" and "distinct (map fst groups)"
  shows "(fst g \<noteq> key \<and> g \<in> set groups) \<or>
         (fst g = key \<and> (\<exists>old. (key, old) \<in> set groups \<and> snd g = old @ [m])) \<or>
         (fst g = key \<and> key \<notin> fst ` set groups \<and> snd g = [m])"
  using assms
proof (induction groups key m rule: setdefault_append.induct)
  case (1 key m)
  then show ?case by auto
next
  case (2 k ms rest key m)
  show ?case
  proof (cases "k = key")
    case True
    with 2 show ?thesis by (auto simp: image_iff)
  next
    case False
    with 2 show ?thesis by (auto simp: image_iff)
  qed
qed

lemma groups_ok_step:
  assumes ok: "groups_ok B groups ms" and key: "market_key B m = key"
  shows "groups_ok B (setdefault_append groups key m) (ms @ [m])"
  unfolding groups_ok_def
proof (intro conjI ballI)
  show "distinct (map fst (setdefault_append groups key m))"
    using ok by (simp add: groups_ok_def setdefault_append_distinct)
next
  fix x assume "x \<in> set (ms @ [m])"
  then show "market_key B x \<in> fst ` set (setdefault_append groups key m)"
    using ok key by (auto simp: groups_ok_def setdefault_append_keys)
next
  fix g assume g: "g \<in> set (setdefault_append groups key m)"
  have d: "distinct (map fst groups)" using ok by (simp add: groups_ok_def)
  have old: "h \<in> set groups \<Longrightarrow> snd h = group_of B ms (fst h) \<and> snd h \<noteq> []" for h
    using ok unfolding groups_ok_def by blast
  from setdefault_append_member [OF g d]
  show "snd g = group_of B (ms @ [m]) (fst g)"
  proof (elim disjE conjE exE)
    assume "fst g \<noteq> key" "g \<in> set groups"
    then show ?thesis using old [of g] key by (simp add: group_of_def)
  next
    fix oldg assume "fst g = key" "(key, oldg) \<in> set groups" "snd g = oldg @ [m]"
    then show ?thesis using old [of "(key, oldg)"] key by (simp add: group_of_def)
  next
    assume k: "fst g = key" "key \<notin> fst ` set groups" "snd g = [m]"
    have "\<forall>x \<in> set ms. market_key B x \<noteq> key"
      using ok k(2) by (auto simp: groups_ok_def)
    then have "filter (\<lambda>x. market_key B x = key) ms = []"
      by (simp add: filter_empty_conv)
    then show ?thesis using k key by (simp add: group_of_def)
  qed
  from setdefault_append_member [OF g d]
  show "snd g \<noteq> []"
    using old [of g] by auto
qed

lemma group_markets_ok:
  "group_markets B groups rest = Inr result \<Longrightarrow> groups_ok B groups ms \<Longrightarrow>
   groups_ok B result (ms @ rest)"
proof (induction rest arbitrary: groups ms)
  case Nil
  then show ?case by simp
next
  case (Cons m rest)
  from Cons.prems(1) obtain v where v: "dict_get m ''slug'' (JStr []) = Inr v"
    and r: "group_markets B (setdefault_append groups (base_slug (py_str B v)) m) rest = Inr result"
    by (cases "dict_get m ''slug'' (JStr [])") auto
  have "market_key B m = base_slug (py_str B v)"
    using v by (simp add: market_key_def)
  from groups_ok_step [OF Cons.prems(2) this] Cons.IH [OF r, of "ms @ [m]"]
  show ?case by simp
qed

lemma group_markets_groups:
  assumes "group_markets B [] markets = Inr groups" and "g \<in> set groups"
  shows "snd g = group_of B markets (fst g)" and "snd g \<noteq> []"
proof -
  have "groups_ok B [] []" by (simp add: groups_ok_def)
  from group_markets_ok [OF assms(1) this] have "groups_ok B groups markets" by simp
  with assms(2) show "snd g = group_of B markets (fst g)" and "snd g \<noteq> []"
    unfolding groups_ok_def by blast+
qed

subsection \<open>The representative and the sum\<close>

lemma max_by_from_first:
  assumes "max_by_from key best bk xs = Inr rep"
    and "key best = Inr bk"
    and "\<forall>m \<in> set pre. \<exists>v. key m = Inr v \<and> v < bk"
    and "\<forall>m \<in> set post. \<exists>v. key m = Inr v \<and> v \<le> bk"
  shows "first_max key (pre @ best # post @ xs) rep"
  using assms
proof (induction xs arbitrary: best bk pre post)
  case Nil
  then show ?case unfolding first_max_def by auto
next
  case (Cons x xs)
  from Cons.prems(1) obtain k where k: "key x = Inr k"
    by (cases "key x") auto
  show ?case
  proof (cases "bk < k")
    case True
    with Cons.prems(1) k have r: "max_by_from key x k xs = Inr rep" by simp
    have "\<forall>m \<in> set (pre @ best # post). \<exists>v. key m = Inr v \<and> v < k"
      using Cons.prems(2,3,4) True by fastforce
    from Cons.IH [OF r k this, of "[]"] show ?thesis by simp
  next
    case False
    with Cons.prems(1) k have r: "max_by_from key best bk xs = Inr rep" by simp
    have "\<forall>m \<in> set (post @ [x]). \<exists>v. key m = Inr v \<and> v \<le> bk"
      using Cons.prems(4) False k by auto
    from Cons.IH [OF r Cons.prems(2,3) this] show ?thesis by simp
  qed
qed

lemma py_max_by_first:
  assumes "py_max_by key xs = Inr rep"
  shows "first_max key xs rep"
proof (cases xs)
  case Nil
  with assms show ?thesis by (simp add: py_max_by_def)
next
  case (Cons x rest)
  with assms obtain k where k: "key x = Inr k" and r: "max_by_from key x k rest = Inr rep"
    by (cases "key x") (auto simp: py_max_by_def)
  from max_by_from_first [OF r k, of "[]" "[]"] Cons show ?thesis by simp
qed

lemma sum_volumes_sum:
  "sum_volumes B acc ms = Inr tot \<Longrightarrow>
   \<exists>vols. map (market_volume B) ms = map Inr vols \<and> tot = acc + sum_list vols"
proof (induction ms arbitrary: acc)
  case Nil
  then show ?case by simp
next
  case (Cons m ms)
  from Cons.prems obtain v where v: "market_volume B m = Inr v"
    and r: "sum_volumes B (acc + v) ms = Inr tot"
    by (cases "market_volume B m") auto
  from Cons.IH [OF r] obtain vols where "map (market_volume B) ms = map Inr vols"
    "tot = acc + v + sum_list vols" by blast
  with v have "map (market_volume B) (m # ms) = map Inr (v # vols) \<and>
      tot = acc + sum_list (v # vols)" by simp
  then show ?case by blast
qed

subsection \<open>The rows\<close>

lemma make_row_fields:
  assumes "make_row B n bslug mkts rep cond mm = Inr row"
  shows "row_event_key row = bslug"
    and "\<exists>vols. map (market_volume B) mkts = map Inr vols \<and>
           row_total_volume_usd row = py_round (sum_list vols) 6"
    and "dict_get rep ''id'' (JStr []) = Inr (row_rep_market_id row)"
    and "dict_get rep ''question'' (JStr []) = Inr (row_any_question row)"
    and "row_rep_condition_id row = py_or cond (JStr [])"
proof -
  from assms obtain tot rep_id question where t: "sum_volumes B 0 mkts = Inr tot"
    and i: "dict_get rep ''id'' (JStr []) = Inr rep_id"
    and q: "dict_get rep ''question'' (JStr []) = Inr question"
    and row: "row_event_key row = bslug" "row_total_volume_usd row = py_round tot 6"
      "row_rep_market_id row = rep_id" "row_any_question row = question"
      "row_rep_condition_id row = py_or cond (JStr [])"
    unfolding make_row_def by (auto dest!: bindE_Inr)
  from sum_volumes_sum [OF t] row(2)
  show "\<exists>vols. map (market_volume B) mkts = map Inr vols \<and>
           row_total_volume_usd row = py_round (sum_list vols) 6" by auto
  show "row_event_key row = bslug" by (rule row(1))
  show "dict_get rep ''id'' (JStr []) = Inr (row_rep_market_id row)" using i row by simp
  show "dict_get rep ''question'' (JStr []) = Inr (row_any_question row)" using q row by simp
  show "row_rep_condition_id row = py_or cond (JStr [])" by (rule row(5))
qed

lemma event_of_group_row:
  assumes "event_of_group fuel net start B n g s = (Some (Inr row), s')"
  shows "row_of_group B row g"
proof -
  let ?sel = "bindE (py_max_by (market_volume B) (snd g)) (\<lambda>rep.
             bindE (condition_of rep) (\<lambda>cond. Inr (rep, cond)))"
  from assms obtain rep cond where sel: "?sel = Inr (rep, cond)"
    unfolding event_of_group_def by (cases ?sel) auto
  then have rep: "py_max_by (market_volume B) (snd g) = Inr rep"
    and cond: "condition_of rep = Inr cond"
    by (auto dest!: bindE_Inr)
  let ?ft = "if truthy cond then fetch_trades_for_market fuel net start cond s
             else (Some (Inr []), s)"
  obtain res s1 where ft: "?ft = (res, s1)" by (cases ?ft)
  from assms sel ft obtain trades where "res = Some (Inr trades)"
    and "bindE (compute_metrics B trades) (make_row B n (fst g) (snd g) rep cond) = Inr row"
    unfolding event_of_group_def
    by (cases res) (auto split: sum.splits)
  then obtain mm where "make_row B n (fst g) (snd g) rep cond mm = Inr row"
    by (auto dest!: bindE_Inr)
  from make_row_fields [OF this] py_max_by_first [OF rep] cond
  show ?thesis unfolding row_of_group_def by blast
qed

lemma aggregate_groups_rows:
  "aggregate_groups fuel net start B n gs rows0 s = (Some (Inr rows), s') \<Longrightarrow>
   \<exists>new. rows = rows0 @ new \<and> list_all2 (row_of_group B) new gs"
proof (induction gs arbitrary: rows0 s)
  case Nil
  then show ?case by simp
next
  case (Cons g gs)
  from Cons.prems obtain row s1 where e: "event_of_group fuel net start B n g s = (Some (Inr row), s1)"
    and r: "aggregate_groups fuel net start B n gs (rows0 @ [row]) s1 = (Some (Inr rows), s')"
    by (auto split: prod.splits option.splits sum.splits)
  from Cons.IH [OF r] obtain new where "rows = (rows0 @ [row]) @ new"
    "list_all2 (row_of_group B) new gs" by blast
  with event_of_group_row [OF e]
  have "rows = rows0 @ (row # new) \<and> list_all2 (row_of_group B) (row # new) (g # gs)" by simp
  then show ?case by blast
qed

lemma aggregate_events_rows:
  assumes "aggregate_events fuel net start B markets s = (Some (Inr rows), s')"
    and "row \<in> set rows"
  shows "row_of_group B row (row_event_key row, group_of B markets (row_event_key row))"
proof -
  from assms(1) obtain groups where g: "group_markets B [] markets = Inr groups"
    and a: "aggregate_groups fuel net start B (length groups) groups [] s = (Some (Inr rows), s')"
    by (auto simp: aggregate_events_def split: sum.splits)
  from aggregate_groups_rows [OF a] have "list_all2 (row_of_group B) rows groups" by simp
  then have len: "length rows = length groups"
    and all: "\<And>i. i < length groups \<Longrightarrow> row_of_group B (rows ! i) (groups ! i)"
    by (simp_all add: list_all2_conv_all_nth)
  from assms(2) obtain i where i: "i < length rows" "row = rows ! i"
    by (auto simp: in_set_conv_nth)
  define grp where "grp = groups ! i"
  have grp: "grp \<in> set groups" and ok: "row_of_group B row grp"
    using i len all [of i] by (simp_all add: grp_def)
  from ok have key: "row_event_key row = fst grp" by (simp add: row_of_group_def)
  from group_markets_groups(1) [OF g grp] key
  have "grp = (row_event_key row, group_of B markets (row_event_key row))"
    by (cases grp) simp
  with ok show ?thesis by simp
qed

text \<open>
  C3, as amended. Whenever \<open>aggregate_events\<close> returns rows, the total volume of each row
  is the sum of the volumes of all markets of the row's group, rounded to six decimal
  places; the representative does not enter it. The volume of a market is
  \<^verbatim>\<open>float(m.get("volume", 0) or 0.0)\<close>.
\<close>

theorem aggregate_events_volume_sum:
  assumes "aggregate_events fuel net start B markets s = (Some (Inr rows), s')"
    and "row \<in> set rows"
  shows "\<exists>vols. map (market_volume B) (group_of B markets (row_event_key row)) = map Inr vols \<and>
           row_total_volume_usd row = py_round (sum_list vols) 6"
  using aggregate_events_rows [OF assms] by (simp add: row_of_group_def)

theorem aggregate_events_volume_sum_witness:
  "aggregate_events 1 (always (Failed [])) None example_builtins three_markets net_start =
     (Some (Inr [zero_row\<lparr>row_event_key := ''event-2025-06-01'',
                   row_url := ''https://polymarket.com/event/event-2025-06-01'',
                   row_markets_count := 3, row_unique_tokens := 3, row_total_volume_usd := 28,
                   row_rep_market_id := JInt 2, row_unique_events := 1\<rparr>]), net_start) \<and>
   group_of example_builtins three_markets ''event-2025-06-01'' = three_markets \<and>
   map (market_volume example_builtins) three_markets = map Inr [5, 20, 3] \<and>
   (\<exists>vols. map (market_volume example_builtins) three_markets = map Inr vols \<and>
      28 = py_round (sum_list vols) 6)"
proof -
  let ?row = "zero_row\<lparr>row_event_key := ''event-2025-06-01'',
                   row_url := ''https://polymarket.com/event/event-2025-06-01'',
                   row_markets_count := 3, row_unique_tokens := 3, row_total_volume_usd := 28,
                   row_rep_market_id := JInt 2, row_unique_events := 1\<rparr>"
  have run: "aggregate_events 1 (always (Failed [])) None example_builtins three_markets net_start =
     (Some (Inr [?row]), net_start)"
    by code_simp
  have grp: "group_of example_builtins three_markets ''event-2025-06-01'' = three_markets"
    by code_simp
  have vols: "map (market_volume example_builtins) three_markets = map Inr [5, 20, 3]"
    by code_simp
  have "?row \<in> set [?row]" by simp
  from aggregate_events_volume_sum [OF run this] grp
  have "\<exists>vols. map (market_volume example_builtins) three_markets = map Inr vols \<and>
      28 = py_round (sum_list vols) 6"
    by (simp add: zero_row_def)
  with run grp vols show ?thesis by blast
qed

text \<open>
  C3 as stated, the exact sum, fails where the sum has more than six decimal places:
  line 233 rounds it. One market of volume 0.0000001 gives a row of volume 0.
\<close>

theorem aggregate_events_volume_sum_counterexample:
  "aggregate_events 1 (always (Failed [])) None example_builtins
       [market 4 ''other'' (JFloat (1 / 10000000))] net_start =
     (Some (Inr [zero_row\<lparr>row_event_key := ''other'',
                   row_url := ''https://polymarket.com/event/other'',
                   row_markets_count := 1, row_unique_tokens := 1, row_total_volume_usd := 0,
                   row_rep_market_id := JInt 4, row_unique_events := 1\<rparr>]), net_start) \<and>
   market_volume example_builtins (market 4 ''other'' (JFloat (1 / 10000000))) = Inr (1 / 10000000)"
  by code_simp



end
